theory Spec2Isabelle
  imports Main "HOL-Library.Multiset" "HOL-Library.Char_ord" "HOL-Library.List_Lexorder"
    "HOL-Library.Product_Lexorder"
begin

section \<open>Values, objects and the runtime\<close>

text \<open>
  The script \<^verbatim>\<open>scripts/generate-releases.js\<close> reads descriptor files
  (\<^verbatim>\<open>metadata.json\<close>), groups the valid ones by category and writes the release
  files. Strings are lists of characters, a character standing for one UTF-16 code unit
  of the script's string; what the script does with a string it does code unit by code
  unit, except for \<^verbatim>\<open>toLowerCase\<close>, which is the runtime's and may change the
  length of a name. A property value of a parsed descriptor is a
  string, \<^verbatim>\<open>null\<close> or \<^verbatim>\<open>undefined\<close>; values of other JSON types (numbers,
  booleans, arrays, nested objects) are outside this model. An object is the list of its
  own enumerable properties in enumeration order, each key occurring once.
\<close>

datatype jsval = JUndefined | JNull | JStr string

type_synonym jsobject = "(string \<times> jsval) list"

text \<open>\<^verbatim>\<open>key in obj\<close>.\<close>

definition has_prop :: "string \<Rightarrow> jsobject \<Rightarrow> bool" where
  "has_prop k obj = (map_of obj k \<noteq> None)"

text \<open>\<^verbatim>\<open>obj[key]\<close>: a missing property reads as \<^verbatim>\<open>undefined\<close>.\<close>

definition get_prop :: "jsobject \<Rightarrow> string \<Rightarrow> jsval" where
  "get_prop obj k = (case map_of obj k of None \<Rightarrow> JUndefined | Some v \<Rightarrow> v)"

text \<open>\<^verbatim>\<open>obj[key] = v\<close>: an existing property keeps its place, a new one goes last.\<close>

fun set_prop :: "string \<Rightarrow> 'v \<Rightarrow> (string \<times> 'v) list \<Rightarrow> (string \<times> 'v) list" where
  "set_prop k v [] = [(k, v)]"
| "set_prop k v ((k', v') # obj) =
     (if k' = k then (k, v) # obj else (k', v') # set_prop k v obj)"

text \<open>String conversion, as a template literal applies it.\<close>

fun to_string :: "jsval \<Rightarrow> string" where
  "to_string JUndefined = ''undefined''"
| "to_string JNull = ''null''"
| "to_string (JStr s) = s"

text \<open>
  What the script takes from Node: the collation behind \<^verbatim>\<open>String.prototype.localeCompare\<close>,
  \<^verbatim>\<open>String.prototype.toLowerCase\<close>, \<^verbatim>\<open>path.dirname\<close>, and the file system, where a
  write or an unlink of a given name may throw (the script catches both).
\<close>

record env =
  localeCompare :: "string \<Rightarrow> string \<Rightarrow> int"
  toLowerCase :: "string \<Rightarrow> string"
  path_dirname :: "string \<Rightarrow> string"
  write_fails :: "string \<Rightarrow> bool"
  unlink_fails :: "string \<Rightarrow> bool"

text \<open>
  \<^verbatim>\<open>Array.prototype.sort(cmp)\<close> is stable; with a consistent comparator its result is
  the stable insertion sort below.
\<close>

fun insert_by :: "('a \<Rightarrow> 'a \<Rightarrow> int) \<Rightarrow> 'a \<Rightarrow> 'a list \<Rightarrow> 'a list" where
  "insert_by cmp x [] = [x]"
| "insert_by cmp x (y # ys) = (if cmp x y \<le> 0 then x # y # ys else y # insert_by cmp x ys)"

definition sort_by :: "('a \<Rightarrow> 'a \<Rightarrow> int) \<Rightarrow> 'a list \<Rightarrow> 'a list" where
  "sort_by cmp xs = foldr (insert_by cmp) xs []"

definition consistent :: "('a \<Rightarrow> 'a \<Rightarrow> int) \<Rightarrow> bool" where
  "consistent cmp \<longleftrightarrow>
     (\<forall>a b. cmp a b \<le> 0 \<or> cmp b a \<le> 0) \<and>
     (\<forall>a b c. cmp a b \<le> 0 \<longrightarrow> cmp b c \<le> 0 \<longrightarrow> cmp a c \<le> 0)"

subsection \<open>String helpers\<close>

definition startsWith :: "string \<Rightarrow> string \<Rightarrow> bool" where
  "startsWith s p = (take (length p) s = p)"

definition endsWith :: "string \<Rightarrow> string \<Rightarrow> bool" where
  "endsWith s p = (length p \<le> length s \<and> drop (length s - length p) s = p)"

definition is_upper :: "char \<Rightarrow> bool" where
  "is_upper c = (let n = (of_char c :: nat) in 65 \<le> n \<and> n \<le> 90)"

definition is_lower_or_digit :: "char \<Rightarrow> bool" where
  "is_lower_or_digit c =
     (let n = (of_char c :: nat) in (97 \<le> n \<and> n \<le> 122) \<or> (48 \<le> n \<and> n \<le> 57))"

text \<open>
  Lower case on ASCII letters, for the concrete runtime below: what \<^verbatim>\<open>toLowerCase\<close>
  gives on a name of ASCII characters.
\<close>

definition lower_char :: "char \<Rightarrow> char" where
  "lower_char c = (if is_upper c then char_of ((of_char c :: nat) + 32) else c)"

definition ascii_toLowerCase :: "string \<Rightarrow> string" where
  "ascii_toLowerCase s = map lower_char s"

text \<open>\<^verbatim>\<open>s.replace(/[^a-z0-9]/g, '-')\<close>.\<close>

definition replace_non_alnum :: "string \<Rightarrow> string" where
  "replace_non_alnum s = map (\<lambda>c. if is_lower_or_digit c then c else CHR ''-'') s"

text \<open>
  \<^verbatim>\<open>s.replace(/\/+/g, '/')\<close>: at a slash the match takes the whole run of slashes
  and one slash is written for it.
\<close>

function replace_slash_runs :: "string \<Rightarrow> string" where
  "replace_slash_runs [] = []"
| "replace_slash_runs (c # cs) =
     (if c = CHR ''/'' then CHR ''/'' # replace_slash_runs (dropWhile (\<lambda>d. d = CHR ''/'') cs)
      else c # replace_slash_runs cs)"
  by pat_completeness auto
termination
  by (relation "measure length") (auto simp: le_imp_less_Suc length_dropWhile_le)

text \<open>\<^verbatim>\<open>s.replace(/\\/g, '/')\<close>.\<close>

definition replace_backslashes :: "string \<Rightarrow> string" where
  "replace_backslashes s = map (\<lambda>c. if c = CHR 0x5C then CHR ''/'' else c) s"

section \<open>Loading and validating a descriptor\<close>

text \<open>
  Only what the script writes with \<^verbatim>\<open>console.warn\<close> and \<^verbatim>\<open>console.error\<close> is
  recorded; the progress lines of \<^verbatim>\<open>console.log\<close> are not.
\<close>

datatype fatal = TypeError string

datatype log =
    Warn_missing_field string string
  | Warn_skipping string string
  | Warn_categories string
  | Error_write string
  | Warn_remove string
  | Script_failed fatal

text \<open>
  What reading and parsing one file gives: \<open>Failed msg\<close> stands for every exception
  inside the \<^verbatim>\<open>try\<close> of \<^verbatim>\<open>loadMetadata\<close> before the field loop ends (the file cannot
  be read, is not JSON, or is JSON that is not an object so that \<^verbatim>\<open>in\<close> throws).
\<close>

datatype file_read = Failed string | Parsed jsobject

definition requiredFields :: "string list" where
  "requiredFields =
     [''name'', ''category'', ''description'', ''version'', ''commit'', ''owner'', ''repo'', ''path'']"

definition field_missing :: "jsobject \<Rightarrow> string \<Rightarrow> bool" where
  "field_missing metadata field \<longleftrightarrow>
     \<not> has_prop field metadata \<or> get_prop metadata field = JNull \<or>
     get_prop metadata field = JUndefined \<or> get_prop metadata field = JStr ''''"

fun loadMetadata :: "env \<Rightarrow> string \<Rightarrow> file_read \<Rightarrow> jsobject option \<times> log list" where
  "loadMetadata e filePath (Failed msg) = (None, [Warn_skipping filePath msg])"
| "loadMetadata e filePath (Parsed metadata) =
     (case find (field_missing metadata) requiredFields of
        Some field \<Rightarrow> (None, [Warn_missing_field filePath field])
      | None \<Rightarrow>
          (Some (set_prop ''filePath'' (JStr (replace_backslashes (path_dirname e filePath)))
                   metadata), []))"

text \<open>
  The allow-list: what reading and parsing \<^verbatim>\<open>categories.json\<close> at lines 59 and 60
  gives. The read or the parse throws (\<open>Categories_failed\<close>), or the file holds
  \<^item> an array, given by its entries as \<^verbatim>\<open>join\<close> converts them to strings: a string is
    itself, \<^verbatim>\<open>null\<close> the empty string, a number its decimal form, an array its own
    join, an object \<^verbatim>\<open>[object Object]\<close> (\<open>Categories_parsed\<close>);
  \<^item> an array with an entry that has no conversion to a string, an object whose own
    properties \<^verbatim>\<open>toString\<close> and \<^verbatim>\<open>valueOf\<close> are not functions
    (\<open>Categories_unprintable\<close>);
  \<^item> \<^verbatim>\<open>null\<close> (\<open>Categories_null\<close>);
  \<^item> another JSON value: an object, a number, a string or a boolean
    (\<open>Categories_other\<close>).
\<close>

datatype categories_read =
    Categories_failed string
  | Categories_parsed "string list"
  | Categories_unprintable
  | Categories_null
  | Categories_other

text \<open>The value of \<^verbatim>\<open>validCategories\<close>: what the parse returned, or \<^verbatim>\<open>[]\<close> from the catch.\<close>

datatype valid_categories =
    Array_value "string list"
  | Unprintable_array
  | Null_value
  | Other_value

fun loadValidCategories :: "categories_read \<Rightarrow> valid_categories \<times> log list" where
  "loadValidCategories (Categories_parsed cs) = (Array_value cs, [])"
| "loadValidCategories Categories_unprintable = (Unprintable_array, [])"
| "loadValidCategories Categories_null = (Null_value, [])"
| "loadValidCategories Categories_other = (Other_value, [])"
| "loadValidCategories (Categories_failed msg) = (Array_value [], [Warn_categories msg])"

text \<open>
  \<^verbatim>\<open>validCategories.join(', ')\<close> at line 73, outside every \<^verbatim>\<open>try\<close>: only an array has
  the method, and the method converts every entry to a string.
\<close>

fun join_strings :: "string \<Rightarrow> string list \<Rightarrow> string" where
  "join_strings sep [] = []"
| "join_strings sep [x] = x"
| "join_strings sep (x # y # ys) = x @ sep @ join_strings sep (y # ys)"

fun join_categories :: "valid_categories \<Rightarrow> fatal + string" where
  "join_categories (Array_value cs) = Inr (join_strings '', '' cs)"
| "join_categories Unprintable_array =
     Inl (TypeError ''Cannot convert object to primitive value'')"
| "join_categories Null_value =
     Inl (TypeError ''Cannot read properties of null (reading join)'')"
| "join_categories Other_value = Inl (TypeError ''validCategories.join is not a function'')"

section \<open>Grouping by category\<close>

text \<open>
  \<^verbatim>\<open>categorizedApps\<close> is a plain object, so a key reads an inherited property of
  \<^verbatim>\<open>Object.prototype\<close> when the object has no own property of that name. Each of
  these is truthy and none has a \<^verbatim>\<open>push\<close> method.
\<close>

definition object_prototype_keys :: "string list" where
  "object_prototype_keys =
     [''constructor'', ''__defineGetter__'', ''__defineSetter__'', ''hasOwnProperty'',
      ''__lookupGetter__'', ''__lookupSetter__'', ''isPrototypeOf'', ''propertyIsEnumerable'',
      ''toString'', ''valueOf'', ''__proto__'', ''toLocaleString'']"

type_synonym groups = "(string \<times> jsobject list) list"

text \<open>
  Lines 93 to 99: the group of the category is created when the key reads falsy, then
  the descriptor is pushed; the push throws when the key read an inherited property.
\<close>

definition push_app :: "jsobject \<Rightarrow> groups \<Rightarrow> fatal + groups" where
  "push_app metadata categorizedApps =
     (let category = to_string (get_prop metadata ''category'') in
      case map_of categorizedApps category of
        Some apps \<Rightarrow> Inr (set_prop category (apps @ [metadata]) categorizedApps)
      | None \<Rightarrow>
          if category \<in> set object_prototype_keys
          then Inl (TypeError ''categorizedApps[category].push is not a function'')
          else Inr (set_prop category [metadata] categorizedApps))"

text \<open>The loop of lines 90 to 105, with the warnings of the files read so far.\<close>

fun group_apps :: "env \<Rightarrow> (string \<times> file_read) list \<Rightarrow> groups \<Rightarrow> (fatal + groups) \<times> log list" where
  "group_apps e [] categorizedApps = (Inr categorizedApps, [])"
| "group_apps e ((filePath, r) # rest) categorizedApps =
     (case loadMetadata e filePath r of
        (None, w) \<Rightarrow>
          (case group_apps e rest categorizedApps of (res, w') \<Rightarrow> (res, w @ w'))
      | (Some metadata, w) \<Rightarrow>
          (case push_app metadata categorizedApps of
             Inl err \<Rightarrow> (Inl err, w)
           | Inr categorizedApps' \<Rightarrow>
               (case group_apps e rest categorizedApps' of (res, w') \<Rightarrow> (res, w @ w'))))"

text \<open>
  \<^verbatim>\<open>Object.entries\<close> lists the keys that are array indices first, in ascending
  numeric order, then the other keys in the order of their creation.
\<close>

definition is_digit :: "char \<Rightarrow> bool" where
  "is_digit c = (let n = (of_char c :: nat) in 48 \<le> n \<and> n \<le> 57)"

definition digits_value :: "string \<Rightarrow> int" where
  "digits_value k = foldl (\<lambda>a c. 10 * a + ((of_char c :: int) - 48)) 0 k"

definition is_array_index :: "string \<Rightarrow> bool" where
  "is_array_index k \<longleftrightarrow>
     k \<noteq> [] \<and> list_all is_digit k \<and> (k = ''0'' \<or> hd k \<noteq> CHR ''0'') \<and>
     digits_value k < 4294967295"

definition object_entries :: "(string \<times> 'v) list \<Rightarrow> (string \<times> 'v) list" where
  "object_entries obj =
     sort_key (\<lambda>(k, v). digits_value k) (filter (\<lambda>(k, v). is_array_index k) obj) @
     filter (\<lambda>(k, v). \<not> is_array_index k) obj"

section \<open>The release files\<close>

datatype release_data =
  ReleaseData (rd_category: string) (rd_count: nat) (rd_apps: "jsobject list")

datatype category_entry =
  CategoryEntry (ce_name: string) (ce_slug: string) (ce_count: nat)

datatype categories_data =
  CategoriesData (cd_totalCategories: nat) (cd_totalApps: nat)
    (cd_categories: "category_entry list")

datatype releases_data =
  ReleasesData (rl_count: nat) (rl_apps: "jsobject list")

text \<open>
  A file of the releases directory holds the data that was written to it; the text in
  the file is \<^verbatim>\<open>JSON.stringify(data, null, 2)\<close>, a function of that data.
\<close>

datatype content =
    CategoryFile release_data
  | CategoriesFile categories_data
  | ReleasesFile releases_data
  | OtherFile string

type_synonym directory = "(string \<times> content) list"

text \<open>
  The state of a run: the releases directory, what went to standard error, the calls of
  \<^verbatim>\<open>fs.writeFileSync\<close> that returned, in order, and the error that ended the run, if
  one did.
\<close>

record state =
  files :: directory
  stderr :: "log list"
  written :: "(string \<times> content) list"
  failure :: "fatal option"

definition writeFileSync :: "env \<Rightarrow> string \<Rightarrow> content \<Rightarrow> state \<Rightarrow> state option" where
  "writeFileSync e name c s =
     (if write_fails e name then None
      else Some (s\<lparr>files := set_prop name c (files s), written := written s @ [(name, c)]\<rparr>))"

definition compare_names :: "env \<Rightarrow> jsobject \<Rightarrow> jsobject \<Rightarrow> int" where
  "compare_names e a b =
     localeCompare e (to_string (get_prop a ''name'')) (to_string (get_prop b ''name''))"

definition sanitize :: "env \<Rightarrow> string \<Rightarrow> string" where
  "sanitize e category = replace_non_alnum (toLowerCase e category)"

definition release_file_name :: "env \<Rightarrow> string \<Rightarrow> string" where
  "release_file_name e category = ''category-'' @ sanitize e category @ ''.json''"

text \<open>Lines 127 to 132.\<close>

definition clean_app :: "jsobject \<Rightarrow> jsobject" where
  "clean_app app =
     (let owner = get_prop app ''owner'';
          repo = get_prop app ''repo'';
          cleanApp = filter (\<lambda>(k, v). k \<notin> set [''commit'', ''owner'', ''repo'', ''path'',
                                ''filePath'', ''category'', ''files'']) app
      in set_prop ''slug''
           (JStr (to_string owner @ ''/'' @ to_string repo @ ''/'' @
                  to_string (get_prop app ''name''))) cleanApp)"

text \<open>
  The loop of lines 119 to 149. \<^verbatim>\<open>apps.sort\<close> sorts the group in place, so the
  groups read afterwards are the sorted ones (\<open>sort_groups\<close>).
\<close>

fun generate :: "env \<Rightarrow> groups \<Rightarrow> state \<times> string list \<times> string list \<Rightarrow>
    state \<times> string list \<times> string list" where
  "generate e [] acc = acc"
| "generate e ((category, apps) # rest) (s, releaseFiles, categoriesWithReleases) =
     (let releaseFileName = release_file_name e category;
          apps' = sort_by (compare_names e) apps;
          filteredApps = map clean_app apps';
          releaseData = ReleaseData category (length apps') filteredApps
      in case writeFileSync e releaseFileName (CategoryFile releaseData) s of
           Some s' \<Rightarrow>
             generate e rest
               (s', releaseFiles @ [releaseFileName], categoriesWithReleases @ [category])
         | None \<Rightarrow>
             generate e rest
               (s\<lparr>stderr := stderr s @ [Error_write releaseFileName]\<rparr>,
                releaseFiles, categoriesWithReleases))"

definition sort_groups :: "env \<Rightarrow> groups \<Rightarrow> groups" where
  "sort_groups e categorizedApps =
     map (\<lambda>(category, apps). (category, sort_by (compare_names e) apps)) categorizedApps"

text \<open>
  Lines 152 to 174. \<^verbatim>\<open>categorizedApps[category]\<close> is an own property here: the name
  was pushed to \<^verbatim>\<open>categoriesWithReleases\<close> from the keys of the object.
\<close>

definition categories_index :: "env \<Rightarrow> groups \<Rightarrow> string list \<Rightarrow> categories_data" where
  "categories_index e categorizedApps categoriesWithReleases =
     CategoriesData (length categoriesWithReleases)
       (foldl (\<lambda>sum (category, apps). sum + length apps) 0 (object_entries categorizedApps))
       (sort_by (\<lambda>a b. localeCompare e (ce_name a) (ce_name b))
          (map (\<lambda>category. CategoryEntry category (sanitize e category)
                  (case map_of categorizedApps category of Some apps \<Rightarrow> length apps | None \<Rightarrow> 0))
               categoriesWithReleases))"

definition write_or_log :: "env \<Rightarrow> string \<Rightarrow> content \<Rightarrow> state \<Rightarrow> state" where
  "write_or_log e name c s =
     (case writeFileSync e name c s of
        Some s' \<Rightarrow> s'
      | None \<Rightarrow> s\<lparr>stderr := stderr s @ [Error_write name]\<rparr>)"

text \<open>Lines 177 to 209.\<close>

definition release_entry :: "jsobject \<Rightarrow> jsobject" where
  "release_entry app =
     [(''name'', get_prop app ''name''),
      (''version'', get_prop app ''version''),
      (''slug'', JStr (replace_slash_runs
         (to_string (get_prop app ''owner'') @ ''/'' @ to_string (get_prop app ''repo'') @
          to_string (get_prop app ''path'') @ to_string (get_prop app ''name''))))]"

definition releases_index :: "env \<Rightarrow> groups \<Rightarrow> releases_data" where
  "releases_index e categorizedApps =
     (let allApps = concat (map (\<lambda>(category, apps). map release_entry apps)
                              (object_entries categorizedApps));
          allApps' = sort_by (compare_names e) allApps
      in ReleasesData (length allApps') allApps')"

text \<open>Lines 212 to 224.\<close>

definition is_release_file :: "string \<Rightarrow> bool" where
  "is_release_file file \<longleftrightarrow> startsWith file ''category-'' \<and> endsWith file ''.json''"

fun cleanup :: "env \<Rightarrow> string list \<Rightarrow> string list \<Rightarrow> state \<Rightarrow> state" where
  "cleanup e releaseFiles [] s = s"
| "cleanup e releaseFiles (existingFile # rest) s =
     (if existingFile \<notin> set releaseFiles
      then (if unlink_fails e existingFile
            then cleanup e releaseFiles rest (s\<lparr>stderr := stderr s @ [Warn_remove existingFile]\<rparr>)
            else cleanup e releaseFiles rest
                   (s\<lparr>files := filter (\<lambda>(name, c). name \<noteq> existingFile) (files s)\<rparr>))
      else cleanup e releaseFiles rest s)"

text \<open>Lines 116 to 224, from the groups on.\<close>

definition synthesize :: "env \<Rightarrow> groups \<Rightarrow> state \<Rightarrow> state" where
  "synthesize e categorizedApps s =
     (case generate e (object_entries categorizedApps) (s, [], []) of
        (s1, releaseFiles, categoriesWithReleases) \<Rightarrow>
          (let sortedApps = sort_groups e categorizedApps;
               s2 = (if categoriesWithReleases \<noteq> []
                     then write_or_log e ''categories.json''
                            (CategoriesFile
                               (categories_index e sortedApps categoriesWithReleases)) s1
                     else s1);
               s3 = (if sortedApps \<noteq> []
                     then write_or_log e ''releases.json''
                            (ReleasesFile (releases_index e sortedApps)) s2
                     else s2)
           in cleanup e releaseFiles (filter is_release_file (map fst (files s3))) s3))"

text \<open>
  \<^verbatim>\<open>main\<close>, given what the allow-list file and the discovered descriptor files read
  as, and the releases directory before the run. The allow-list is joined into a
  progress line and not used again. An error thrown in \<^verbatim>\<open>main\<close> is reported and ends
  the process. The
  releases directory is taken to exist or to be created, and to be listed, without error
  (\<^verbatim>\<open>mkdirSync\<close>, \<^verbatim>\<open>readdirSync\<close>); a directory that does not exist yet is the empty
  list.
\<close>

definition main :: "env \<Rightarrow> categories_read \<Rightarrow> (string \<times> file_read) list \<Rightarrow> directory \<Rightarrow> state" where
  "main e cr metadataFiles dir =
     (case loadValidCategories cr of
        (validCategories, w0) \<Rightarrow>
          (let s0 = \<lparr>files = dir, stderr = w0, written = [], failure = None\<rparr> in
           case join_categories validCategories of
             Inl err \<Rightarrow> s0\<lparr>stderr := w0 @ [Script_failed err], failure := Some err\<rparr>
           | Inr line \<Rightarrow>
               if metadataFiles = [] then s0
               else
                 (case group_apps e metadataFiles [] of
                    (Inl err, w) \<Rightarrow>
                      s0\<lparr>stderr := w0 @ w @ [Script_failed err], failure := Some err\<rparr>
                  | (Inr categorizedApps, w) \<Rightarrow>
                      synthesize e categorizedApps (s0\<lparr>stderr := w0 @ w\<rparr>))))"

section \<open>A concrete runtime\<close>

text \<open>
  The default collation of the runtime on names made of ASCII letters and digits: digits
  before letters, letters in alphabetical order whatever their case, and between two
  names equal up to case the one with the lower-case letter at the first difference comes
  first. Other characters are placed by their code here. The key of a name is the list of
  its letters without case, then the list of the cases.
\<close>

definition collation_key :: "string \<Rightarrow> nat list \<times> nat list" where
  "collation_key s =
     (map (\<lambda>c. of_char (lower_char c)) s, map (\<lambda>c. if is_upper c then 1 else 0) s)"

definition default_localeCompare :: "string \<Rightarrow> string \<Rightarrow> int" where
  "default_localeCompare a b =
     (if collation_key a < collation_key b then - 1
      else if collation_key a = collation_key b then 0 else 1)"

text \<open>\<^verbatim>\<open>path.dirname\<close> on a POSIX path that does not end in a slash.\<close>

definition posix_dirname :: "string \<Rightarrow> string" where
  "posix_dirname p =
     (if CHR ''/'' \<notin> set p then ''.''
      else (let d = rev (dropWhile (\<lambda>c. c = CHR ''/'') (dropWhile (\<lambda>c. c \<noteq> CHR ''/'') (rev p)))
            in if d = [] then ''/'' else d))"

text \<open>A runtime in which no file operation fails.\<close>

definition node_env :: env where
  "node_env =
     \<lparr>localeCompare = default_localeCompare, toLowerCase = ascii_toLowerCase,
      path_dirname = posix_dirname,
      write_fails = (\<lambda>name. False), unlink_fails = (\<lambda>name. False)\<rparr>"

text \<open>The two descriptors of the end-to-end scenario of the specification.\<close>

definition foo_descriptor :: jsobject where
  "foo_descriptor =
     [(''name'', JStr ''Foo''), (''category'', JStr ''Tools''), (''version'', JStr ''1.0''),
      (''commit'', JStr ''abc''), (''owner'', JStr ''o1''), (''repo'', JStr ''r1''),
      (''path'', JStr ''/a/''), (''description'', JStr ''d'')]"

definition bar_descriptor :: jsobject where
  "bar_descriptor =
     [(''name'', JStr ''Bar''), (''category'', JStr ''Tools''), (''version'', JStr ''2.0''),
      (''commit'', JStr ''def''), (''owner'', JStr ''o2''), (''repo'', JStr ''r2''),
      (''path'', JStr ''/b/''), (''description'', JStr ''d'')]"

definition scenario_files :: "(string \<times> file_read) list" where
  "scenario_files =
     [(''repositories/o1/r1/a/metadata.json'', Parsed foo_descriptor),
      (''repositories/o2/r2/b/metadata.json'', Parsed bar_descriptor)]"

section \<open>Vocabulary of the statements\<close>

text \<open>The descriptors of a run that pass validation, as loaded, in discovery order.\<close>

definition valid_descriptors :: "env \<Rightarrow> (string \<times> file_read) list \<Rightarrow> jsobject list" where
  "valid_descriptors e metadataFiles =
     List.map_filter (\<lambda>(filePath, r). fst (loadMetadata e filePath r)) metadataFiles"

definition category_of :: "jsobject \<Rightarrow> string" where
  "category_of metadata = to_string (get_prop metadata ''category'')"

definition name_of :: "jsobject \<Rightarrow> string" where
  "name_of app = to_string (get_prop app ''name'')"

text \<open>The error that line 73 throws on the allow-list as loaded, if it throws.\<close>

definition join_error :: "categories_read \<Rightarrow> fatal option" where
  "join_error cr =
     (case join_categories (fst (loadValidCategories cr)) of
        Inl err \<Rightarrow> Some err
      | Inr line \<Rightarrow> None)"

text \<open>A warning of \<^verbatim>\<open>loadMetadata\<close> about the descriptor file of a given path.\<close>

fun warns_about :: "string \<Rightarrow> log \<Rightarrow> bool" where
  "warns_about filePath (Warn_missing_field p field) = (p = filePath)"
| "warns_about filePath (Warn_skipping p msg) = (p = filePath)"
| "warns_about filePath other = False"


text \<open>The grouping loop on the valid descriptors alone.\<close>

fun push_all :: "jsobject list \<Rightarrow> groups \<Rightarrow> fatal + groups" where
  "push_all [] categorizedApps = Inr categorizedApps"
| "push_all (metadata # rest) categorizedApps =
     (case push_app metadata categorizedApps of
        Inl err \<Rightarrow> Inl err
      | Inr categorizedApps' \<Rightarrow> push_all rest categorizedApps')"

text \<open>The manifest of one group, and the groups whose manifest is written.\<close>

definition manifest_of :: "env \<Rightarrow> string \<times> jsobject list \<Rightarrow> string \<times> content" where
  "manifest_of e entry =
     (release_file_name e (fst entry),
      CategoryFile (ReleaseData (fst entry) (length (sort_by (compare_names e) (snd entry)))
        (map clean_app (sort_by (compare_names e) (snd entry)))))"

definition wrote :: "env \<Rightarrow> groups \<Rightarrow> groups" where
  "wrote e entries = filter (\<lambda>entry. \<not> write_fails e (release_file_name e (fst entry))) entries"

definition synth_release_files :: "env \<Rightarrow> groups \<Rightarrow> string list" where
  "synth_release_files e categorizedApps =
     map (\<lambda>entry. release_file_name e (fst entry)) (wrote e (object_entries categorizedApps))"

definition synth_written :: "env \<Rightarrow> groups \<Rightarrow> (string \<times> content) list" where
  "synth_written e categorizedApps =
     map (manifest_of e) (wrote e (object_entries categorizedApps)) @
     (if wrote e (object_entries categorizedApps) \<noteq> [] \<and> \<not> write_fails e ''categories.json''
      then [(''categories.json'',
             CategoriesFile (categories_index e (sort_groups e categorizedApps)
               (map fst (wrote e (object_entries categorizedApps)))))]
      else []) @
     (if categorizedApps \<noteq> [] \<and> \<not> write_fails e ''releases.json''
      then [(''releases.json'', ReleasesFile (releases_index e (sort_groups e categorizedApps)))]
      else [])"

text \<open>
  The specification's wording of the slash rule: every maximal run of consecutive
  slashes becomes one slash, that is, a slash followed by a slash is dropped.
\<close>

fun collapse_slashes :: "string \<Rightarrow> string" where
  "collapse_slashes [] = []"
| "collapse_slashes [c] = [c]"
| "collapse_slashes (a # b # cs) =
     (if a = CHR ''/'' \<and> b = CHR ''/'' then collapse_slashes (b # cs)
      else a # collapse_slashes (b # cs))"

text \<open>Non-decreasing under the comparator of the runtime.\<close>

definition names_sorted :: "env \<Rightarrow> jsobject list \<Rightarrow> bool" where
  "names_sorted e apps =
     sorted_wrt (\<lambda>a b. localeCompare e a b \<le> 0) (map name_of apps)"

text \<open>
  A releases directory as a run on the descriptor \<open>foo_descriptor\<close> alone leaves it.
\<close>

definition stale_directory :: directory where
  "stale_directory =
     [(''category-tools.json'',
       CategoryFile (ReleaseData ''Tools'' 1
         [[(''name'', JStr ''Foo''), (''version'', JStr ''1.0''), (''description'', JStr ''d''),
           (''slug'', JStr ''o1/r1/Foo'')]])),
      (''categories.json'',
       CategoriesFile (CategoriesData 1 1 [CategoryEntry ''Tools'' ''tools'' 1])),
      (''releases.json'',
       ReleasesFile (ReleasesData 1
         [[(''name'', JStr ''Foo''), (''version'', JStr ''1.0''),
           (''slug'', JStr ''o1/r1/a/Foo'')]]))]"

text \<open>A discovered file that is not JSON.\<close>

definition broken_files :: "(string \<times> file_read) list" where
  "broken_files =
     [(''repositories/o1/r1/a/metadata.json'', Failed ''Unexpected end of JSON input'')]"

text \<open>
  A descriptor with an empty category and a \<^verbatim>\<open>null\<close> commit, discovered between the
  two descriptors of the scenario.
\<close>

definition incomplete_descriptor :: jsobject where
  "incomplete_descriptor =
     [(''name'', JStr ''Baz''), (''category'', JStr ''''), (''description'', JStr ''d''),
      (''version'', JStr ''0.1''), (''commit'', JNull), (''owner'', JStr ''o3''),
      (''repo'', JStr ''r3''), (''path'', JStr ''/c/'')]"

definition incomplete_files :: "(string \<times> file_read) list" where
  "incomplete_files =
     [(''repositories/o1/r1/a/metadata.json'', Parsed foo_descriptor),
      (''repositories/o3/r3/c/metadata.json'', Parsed incomplete_descriptor),
      (''repositories/o2/r2/b/metadata.json'', Parsed bar_descriptor)]"

text \<open>Two descriptors of one category whose names differ in case.\<close>

definition lower_descriptor :: jsobject where
  "lower_descriptor =
     [(''name'', JStr ''a''), (''category'', JStr ''Tools''), (''description'', JStr ''d''),
      (''version'', JStr ''1.0''), (''commit'', JStr ''abc''), (''owner'', JStr ''o1''),
      (''repo'', JStr ''r1''), (''path'', JStr ''/a/'')]"

definition upper_descriptor :: jsobject where
  "upper_descriptor =
     [(''name'', JStr ''B''), (''category'', JStr ''Tools''), (''description'', JStr ''d''),
      (''version'', JStr ''2.0''), (''commit'', JStr ''def''), (''owner'', JStr ''o2''),
      (''repo'', JStr ''r2''), (''path'', JStr ''/b/'')]"

definition case_files :: "(string \<times> file_read) list" where
  "case_files =
     [(''repositories/o1/r1/a/metadata.json'', Parsed lower_descriptor),
      (''repositories/o2/r2/b/metadata.json'', Parsed upper_descriptor)]"

text \<open>Non-decreasing in the lexicographic order of the character codes.\<close>

definition codepoint_sorted :: "jsobject list \<Rightarrow> bool" where
  "codepoint_sorted apps = sorted (map name_of apps)"

text \<open>
  A well-formed descriptor whose category is the name of a property that every plain
  object inherits.
\<close>

definition constructor_descriptor :: jsobject where
  "constructor_descriptor =
     [(''name'', JStr ''Foo''), (''category'', JStr ''constructor''),
      (''description'', JStr ''d''), (''version'', JStr ''1.0''), (''commit'', JStr ''abc''),
      (''owner'', JStr ''o1''), (''repo'', JStr ''r1''), (''path'', JStr ''/a/'')]"

definition constructor_files :: "(string \<times> file_read) list" where
  "constructor_files =
     [(''repositories/o1/r1/a/metadata.json'', Parsed constructor_descriptor)]"

text \<open>A valid descriptor of the category \<^verbatim>\<open>tools\<close>, in lower case.\<close>

definition tools_descriptor :: jsobject where
  "tools_descriptor =
     [(''name'', JStr ''Foo''), (''category'', JStr ''tools''), (''description'', JStr ''d''),
      (''version'', JStr ''1.0''), (''commit'', JStr ''abc''), (''owner'', JStr ''o1''),
      (''repo'', JStr ''r1''), (''path'', JStr ''/a/'')]"

definition tools_files :: "(string \<times> file_read) list" where
  "tools_files = [(''repositories/o1/r1/a/metadata.json'', Parsed tools_descriptor)]"

section \<open>Basic facts\<close>

lemma map_of_set_prop: "map_of (set_prop k v obj) = (map_of obj)(k \<mapsto> v)"
  by (induction obj) auto

lemma keys_set_prop: "fst ` set (set_prop k v obj) = insert k (fst ` set obj)"
  by (metis dom_map_of_conv_image_fst map_of_set_prop dom_fun_upd option.distinct(1))

lemma filter_set_prop_drop:
  "\<not> P k \<Longrightarrow> filter (\<lambda>kv. P (fst kv)) (set_prop k v obj) = filter (\<lambda>kv. P (fst kv)) obj"
  by (induction obj) auto

lemma collapse_slash_head:
  "collapse_slashes (CHR ''/'' # cs) = CHR ''/'' # collapse_slashes (dropWhile (\<lambda>d. d = CHR ''/'') cs)"
proof (induction cs)
  case Nil
  show ?case by simp
next
  case (Cons b cs)
  then show ?case by (cases "b = CHR ''/''") simp_all
qed

lemma collapse_other_head:
  "c \<noteq> CHR ''/'' \<Longrightarrow> collapse_slashes (c # cs) = c # collapse_slashes cs"
  by (cases cs) simp_all

lemma replace_slash_runs_collapse: "replace_slash_runs s = collapse_slashes s"
proof (induction s rule: replace_slash_runs.induct)
  case 1
  show ?case by simp
next
  case (2 c cs)
  show ?case
  proof (cases "c = CHR ''/''")
    case True
    with 2 show ?thesis by (simp add: collapse_slash_head)
  next
    case False
    with 2 show ?thesis by (simp add: collapse_other_head)
  qed
qed

lemma map_of_fold_set_prop:
  "map_of (fold (\<lambda>w. set_prop (fst w) (snd w)) ws fs) = map_of fs ++ map_of (rev ws)"
proof (induction ws arbitrary: fs)
  case Nil
  show ?case by simp
next
  case (Cons w ws)
  show ?case
    by (cases w) (simp add: Cons.IH map_of_set_prop map_add_upd_left fun_eq_iff map_add_def split: option.splits)
qed

lemma map_of_filter_neq:
  "map_of (filter (\<lambda>(name, c). name \<noteq> x) fs) f = (if f = x then None else map_of fs f)"
  by (induction fs) auto

lemma cleanup_written: "written (cleanup e rf ex s) = written s"
  by (induction ex arbitrary: s) auto

lemma cleanup_failure: "failure (cleanup e rf ex s) = failure s"
  by (induction ex arbitrary: s) auto

lemma map_of_cleanup:
  "map_of (files (cleanup e rf ex s)) f =
     (if f \<in> set ex \<and> f \<notin> set rf \<and> \<not> unlink_fails e f then None else map_of (files s) f)"
  by (induction ex arbitrary: s) (auto simp: map_of_filter_neq)


lemma generate_written:
  "written (fst (generate e entries (s, rf, cwr))) = written s @ map (manifest_of e) (wrote e entries)"
  by (induction entries arbitrary: s rf cwr)
     (auto simp: wrote_def manifest_of_def writeFileSync_def Let_def)

lemma generate_failure:
  "failure (fst (generate e entries (s, rf, cwr))) = failure s"
  by (induction entries arbitrary: s rf cwr)
     (auto simp: writeFileSync_def Let_def)

lemma generate_files:
  "files (fst (generate e entries (s, rf, cwr))) =
     fold (\<lambda>w. set_prop (fst w) (snd w)) (map (manifest_of e) (wrote e entries)) (files s)"
  by (induction entries arbitrary: s rf cwr)
     (auto simp: wrote_def manifest_of_def writeFileSync_def Let_def)

lemma generate_releaseFiles:
  "fst (snd (generate e entries (s, rf, cwr))) =
     rf @ map (\<lambda>entry. release_file_name e (fst entry)) (wrote e entries)"
  by (induction entries arbitrary: s rf cwr)
     (auto simp: wrote_def writeFileSync_def Let_def)

lemma generate_categoriesWithReleases:
  "snd (snd (generate e entries (s, rf, cwr))) = cwr @ map fst (wrote e entries)"
  by (induction entries arbitrary: s rf cwr)
     (auto simp: wrote_def writeFileSync_def Let_def)

lemma write_or_log_written:
  "written (write_or_log e name c s) = written s @ (if write_fails e name then [] else [(name, c)])"
  by (simp add: write_or_log_def writeFileSync_def)

lemma write_or_log_failure: "failure (write_or_log e name c s) = failure s"
  by (simp add: write_or_log_def writeFileSync_def)

lemma write_or_log_files:
  "files (write_or_log e name c s) =
     fold (\<lambda>w. set_prop (fst w) (snd w)) (if write_fails e name then [] else [(name, c)]) (files s)"
  by (simp add: write_or_log_def writeFileSync_def)

lemma sort_groups_Nil: "sort_groups e cats = [] \<longleftrightarrow> cats = []"
  by (simp add: sort_groups_def)

lemma synthesize_written:
  "written (synthesize e cats s) = written s @ synth_written e cats"
proof -
  obtain s1 rf cwr where g: "generate e (object_entries cats) (s, [], []) = (s1, rf, cwr)"
    by (cases "generate e (object_entries cats) (s, [], [])") auto
  have w1: "written s1 = written s @ map (manifest_of e) (wrote e (object_entries cats))"
    using generate_written[of e "object_entries cats" s "[]" "[]"] g by simp
  have c: "cwr = map fst (wrote e (object_entries cats))"
    using generate_categoriesWithReleases[of e "object_entries cats" s "[]" "[]"] g by simp
  show ?thesis
    by (simp add: synthesize_def g Let_def cleanup_written write_or_log_written w1 c
        synth_written_def sort_groups_Nil)
qed

lemma synthesize_failure: "failure (synthesize e cats s) = failure s"
proof -
  obtain s1 rf cwr where g: "generate e (object_entries cats) (s, [], []) = (s1, rf, cwr)"
    by (cases "generate e (object_entries cats) (s, [], [])") auto
  have "failure s1 = failure s"
    using generate_failure[of e "object_entries cats" s "[]" "[]"] g by simp
  then show ?thesis
    by (simp add: synthesize_def g Let_def cleanup_failure write_or_log_failure)
qed

lemma synthesize_files:
  "map_of (files (synthesize e cats s)) f =
     (if is_release_file f \<and> f \<notin> set (synth_release_files e cats) \<and> \<not> unlink_fails e f
      then None
      else (map_of (files s) ++ map_of (rev (synth_written e cats))) f)"
proof -
  obtain s1 rf cwr where g: "generate e (object_entries cats) (s, [], []) = (s1, rf, cwr)"
    by (cases "generate e (object_entries cats) (s, [], [])") auto
  define ws1 where "ws1 = map (manifest_of e) (wrote e (object_entries cats))"
  define ws2 where "ws2 = (if cwr \<noteq> [] \<and> \<not> write_fails e ''categories.json''
      then [(''categories.json'', CategoriesFile (categories_index e (sort_groups e cats) cwr))]
      else [])"
  define ws3 where "ws3 = (if cats \<noteq> [] \<and> \<not> write_fails e ''releases.json''
      then [(''releases.json'', ReleasesFile (releases_index e (sort_groups e cats)))]
      else [])"
  define s2 where "s2 = (if cwr \<noteq> []
      then write_or_log e ''categories.json''
             (CategoriesFile (categories_index e (sort_groups e cats) cwr)) s1 else s1)"
  define s3 where "s3 = (if sort_groups e cats \<noteq> []
      then write_or_log e ''releases.json''
             (ReleasesFile (releases_index e (sort_groups e cats))) s2 else s2)"
  have f1: "files s1 = fold (\<lambda>w. set_prop (fst w) (snd w)) ws1 (files s)"
    using generate_files[of e "object_entries cats" s "[]" "[]"] g by (simp add: ws1_def)
  have c: "cwr = map fst (wrote e (object_entries cats))"
    using generate_categoriesWithReleases[of e "object_entries cats" s "[]" "[]"] g by simp
  have r: "rf = synth_release_files e cats"
    using generate_releaseFiles[of e "object_entries cats" s "[]" "[]"] g
    by (simp add: synth_release_files_def)
  have f2: "files s2 = fold (\<lambda>w. set_prop (fst w) (snd w)) ws2 (files s1)"
    by (simp add: s2_def ws2_def write_or_log_files)
  have f3: "files s3 = fold (\<lambda>w. set_prop (fst w) (snd w)) ws3 (files s2)"
    by (simp add: s3_def ws3_def write_or_log_files sort_groups_Nil)
  have sw: "synth_written e cats = ws1 @ ws2 @ ws3"
    by (simp add: synth_written_def ws1_def ws2_def ws3_def c)
  have f3': "files s3 = fold (\<lambda>w. set_prop (fst w) (snd w)) (synth_written e cats) (files s)"
    by (simp add: sw f3 f2 f1)
  have syn: "synthesize e cats s =
       cleanup e (synth_release_files e cats) (filter is_release_file (map fst (files s3))) s3"
    by (simp add: synthesize_def g Let_def s3_def s2_def r)
  have m3: "map_of (files s3) = map_of (files s) ++ map_of (rev (synth_written e cats))"
    by (simp only: f3' map_of_fold_set_prop)
  have none: "f \<notin> fst ` set (files s3) \<Longrightarrow> map_of (files s3) f = None"
    by (simp add: map_of_eq_None_iff)
  show ?thesis
    unfolding syn map_of_cleanup using none m3 by auto
qed

lemma valid_descriptors_Nil: "valid_descriptors e [] = []"
  by (simp add: valid_descriptors_def map_filter_simps)

lemma valid_descriptors_Cons:
  "valid_descriptors e ((filePath, r) # rest) =
     (case fst (loadMetadata e filePath r) of
        None \<Rightarrow> valid_descriptors e rest
      | Some metadata \<Rightarrow> metadata # valid_descriptors e rest)"
  by (cases "fst (loadMetadata e filePath r)")
     (simp_all add: valid_descriptors_def map_filter_simps)

lemma valid_descriptors_append:
  "valid_descriptors e (xs @ ys) = valid_descriptors e xs @ valid_descriptors e ys"
  by (simp add: valid_descriptors_def map_filter_def)

lemma group_apps_push_all:
  "fst (group_apps e metadataFiles cats) = push_all (valid_descriptors e metadataFiles) cats"
proof (induction metadataFiles arbitrary: cats)
  case Nil
  show ?case by (simp add: valid_descriptors_Nil)
next
  case (Cons x rest)
  obtain filePath r where x: "x = (filePath, r)" by (cases x)
  obtain mo w where l: "loadMetadata e filePath r = (mo, w)" by (cases "loadMetadata e filePath r")
  show ?case
  proof (cases mo)
    case None
    have "fst (group_apps e (x # rest) cats) = fst (group_apps e rest cats)"
      by (simp add: x l None split: prod.splits)
    then show ?thesis
      by (simp add: Cons.IH x valid_descriptors_Cons l None)
  next
    case (Some m)
    show ?thesis
    proof (cases "push_app m cats")
      case (Inl err)
      then show ?thesis by (simp add: x valid_descriptors_Cons l Some)
    next
      case (Inr cats1)
      have "fst (group_apps e (x # rest) cats) = fst (group_apps e rest cats1)"
        by (simp add: x l Some Inr split: prod.splits)
      then show ?thesis
        by (simp add: Cons.IH x valid_descriptors_Cons l Some Inr)
    qed
  qed
qed

lemma push_app_map_of:
  assumes "push_app m cats = Inr cats'"
  shows "map_of cats' = (map_of cats)(category_of m \<mapsto>
           (case map_of cats (category_of m) of None \<Rightarrow> [] | Some apps \<Rightarrow> apps) @ [m])"
  using assms
  by (auto simp: push_app_def category_of_def Let_def map_of_set_prop
      split: option.splits if_splits)

lemma push_all_map_of:
  "push_all ms cats = Inr cats' \<Longrightarrow>
   map_of cats' c =
     (if \<exists>m\<in>set ms. category_of m = c
      then Some ((case map_of cats c of None \<Rightarrow> [] | Some apps \<Rightarrow> apps) @
                 filter (\<lambda>m. category_of m = c) ms)
      else map_of cats c)"
proof (induction ms arbitrary: cats)
  case Nil
  then show ?case by simp
next
  case (Cons m ms)
  from Cons.prems obtain cats1 where p: "push_app m cats = Inr cats1"
    and r: "push_all ms cats1 = Inr cats'"
    by (auto split: sum.splits)
  show ?case
    unfolding Cons.IH[OF r] push_app_map_of[OF p]
    by (auto split: option.splits)
qed

lemma map_fst_set_prop:
  "map fst (set_prop k v obj) = (if k \<in> fst ` set obj then map fst obj else map fst obj @ [k])"
proof (induction obj)
  case Nil
  show ?case by simp
next
  case (Cons p obj)
  obtain k' v' where p: "p = (k', v')" by (cases p)
  show ?case
  proof (cases "k' = k")
    case True
    then show ?thesis by (simp add: p)
  next
    case False
    then show ?thesis using Cons.IH by (simp add: p)
  qed
qed

lemma in_keys_iff: "k \<in> fst ` set obj \<longleftrightarrow> map_of obj k \<noteq> None"
  by (simp add: map_of_eq_None_iff)

lemma push_app_distinct:
  "push_app m cats = Inr cats' \<Longrightarrow> distinct (map fst cats) \<Longrightarrow> distinct (map fst cats')"
  by (auto simp: push_app_def Let_def map_fst_set_prop in_keys_iff split: option.splits if_splits)

lemma push_all_distinct:
  "push_all ms cats = Inr cats' \<Longrightarrow> distinct (map fst cats) \<Longrightarrow> distinct (map fst cats')"
proof (induction ms arbitrary: cats)
  case Nil
  then show ?case by simp
next
  case (Cons m ms)
  from Cons.prems(1) obtain cats1 where p: "push_app m cats = Inr cats1"
    and r: "push_all ms cats1 = Inr cats'"
    by (auto split: sum.splits)
  show ?case using Cons.IH[OF r] push_app_distinct[OF p] Cons.prems(2) by blast
qed

lemma push_app_keys:
  "push_app m cats = Inr cats' \<Longrightarrow> fst ` set cats' = insert (category_of m) (fst ` set cats)"
proof -
  assume a: "push_app m cats = Inr cats'"
  then obtain v where "cats' = set_prop (category_of m) v cats"
    by (auto simp: push_app_def Let_def category_of_def split: option.splits if_splits)
  then show ?thesis by (simp only: keys_set_prop)
qed

lemma push_all_keys:
  "push_all ms cats = Inr cats' \<Longrightarrow> fst ` set cats' = category_of ` set ms \<union> fst ` set cats"
proof (induction ms arbitrary: cats)
  case Nil
  then show ?case by simp
next
  case (Cons m ms)
  from Cons.prems(1) obtain cats1 where p: "push_app m cats = Inr cats1"
    and r: "push_all ms cats1 = Inr cats'"
    by (auto split: sum.splits)
  show ?case using Cons.IH[OF r] push_app_keys[OF p] by auto
qed

lemma push_app_fails_iff:
  "(\<exists>err. push_app m cats = Inl err) \<longleftrightarrow>
     category_of m \<in> set object_prototype_keys \<and> category_of m \<notin> fst ` set cats"
  by (auto simp: push_app_def Let_def category_of_def in_keys_iff split: option.splits)

lemma push_all_completes_iff:
  "(\<exists>cats'. push_all ms cats = Inr cats') \<longleftrightarrow>
     (\<forall>m\<in>set ms. category_of m \<in> set object_prototype_keys \<longrightarrow> category_of m \<in> fst ` set cats)"
proof (induction ms arbitrary: cats)
  case Nil
  show ?case by simp
next
  case (Cons m ms)
  show ?case
  proof (cases "push_app m cats")
    case (Inl err)
    then have "category_of m \<in> set object_prototype_keys \<and> category_of m \<notin> fst ` set cats"
      using push_app_fails_iff by blast
    with Inl show ?thesis by auto
  next
    case (Inr cats1)
    have ok: "\<not> (category_of m \<in> set object_prototype_keys \<and> category_of m \<notin> fst ` set cats)"
      using Inr push_app_fails_iff[of m cats] by auto
    have k: "fst ` set cats1 = insert (category_of m) (fst ` set cats)"
      by (rule push_app_keys[OF Inr])
    show ?thesis
      using ok by (simp add: Inr Cons.IH k) metis
  qed
qed

lemma join_error_simps [simp]:
  "join_error (Categories_parsed cs) = None"
  "join_error (Categories_failed msg) = None"
  "join_error Categories_unprintable =
     Some (TypeError ''Cannot convert object to primitive value'')"
  "join_error Categories_null =
     Some (TypeError ''Cannot read properties of null (reading join)'')"
  "join_error Categories_other = Some (TypeError ''validCategories.join is not a function'')"
  by (simp_all add: join_error_def)

lemma main_join_error:
  assumes "join_error cr = Some err"
  shows "main e cr metadataFiles dir =
           \<lparr>files = dir, stderr = snd (loadValidCategories cr) @ [Script_failed err],
            written = [], failure = Some err\<rparr>"
proof -
  obtain vc w0 where c: "loadValidCategories cr = (vc, w0)" by (cases "loadValidCategories cr")
  from assms have "join_categories vc = Inl err"
    by (simp add: join_error_def c split: sum.splits)
  then show ?thesis
    by (simp add: main_def c)
qed

lemma main_joined:
  assumes "join_error cr = None"
  shows "main e cr metadataFiles dir =
     (if metadataFiles = []
      then \<lparr>files = dir, stderr = snd (loadValidCategories cr), written = [], failure = None\<rparr>
      else
        (case group_apps e metadataFiles [] of
           (Inl err, w) \<Rightarrow>
             \<lparr>files = dir, stderr = snd (loadValidCategories cr) @ w @ [Script_failed err],
              written = [], failure = Some err\<rparr>
         | (Inr categorizedApps, w) \<Rightarrow>
             synthesize e categorizedApps
               \<lparr>files = dir, stderr = snd (loadValidCategories cr) @ w, written = [],
                failure = None\<rparr>))"
proof -
  obtain vc w0 where c: "loadValidCategories cr = (vc, w0)" by (cases "loadValidCategories cr")
  from assms obtain line where "join_categories vc = Inr line"
    by (auto simp: join_error_def c split: sum.splits)
  then show ?thesis
    by (simp add: main_def c split: prod.splits sum.splits)
qed

lemma main_written:
  "written (main e cr metadataFiles dir) =
     (if join_error cr \<noteq> None then []
      else case push_all (valid_descriptors e metadataFiles) [] of
        Inl err \<Rightarrow> []
      | Inr cats \<Rightarrow> synth_written e cats)"
proof (cases "join_error cr")
  case (Some err)
  then show ?thesis by (simp add: main_join_error)
next
  case None
  obtain res w where g: "group_apps e metadataFiles [] = (res, w)"
    by (cases "group_apps e metadataFiles []")
  have r: "res = push_all (valid_descriptors e metadataFiles) []"
    using group_apps_push_all[of e metadataFiles "[]"] g by simp
  show ?thesis
  proof (cases "metadataFiles = []")
    case True
    then show ?thesis
      by (simp add: main_joined None valid_descriptors_Nil synth_written_def object_entries_def
          wrote_def)
  next
    case False
    then show ?thesis
      by (cases res) (simp_all add: main_joined None g r[symmetric] synthesize_written)
  qed
qed

lemma main_failure:
  "failure (main e cr metadataFiles dir) =
     (case join_error cr of
        Some err \<Rightarrow> Some err
      | None \<Rightarrow>
          (case push_all (valid_descriptors e metadataFiles) [] of
             Inl err \<Rightarrow> Some err
           | Inr cats \<Rightarrow> None))"
proof (cases "join_error cr")
  case (Some err)
  then show ?thesis by (simp add: main_join_error)
next
  case None
  obtain res w where g: "group_apps e metadataFiles [] = (res, w)"
    by (cases "group_apps e metadataFiles []")
  have r: "res = push_all (valid_descriptors e metadataFiles) []"
    using group_apps_push_all[of e metadataFiles "[]"] g by simp
  show ?thesis
  proof (cases "metadataFiles = []")
    case True
    then show ?thesis
      by (simp add: main_joined None valid_descriptors_Nil)
  next
    case False
    then show ?thesis
      by (cases res) (simp_all add: main_joined None g r[symmetric] synthesize_failure)
  qed
qed

lemma main_files:
  "map_of (files (main e cr metadataFiles dir)) f =
     (if join_error cr \<noteq> None \<or> metadataFiles = [] then map_of dir f
      else case push_all (valid_descriptors e metadataFiles) [] of
        Inl err \<Rightarrow> map_of dir f
      | Inr cats \<Rightarrow>
          (if is_release_file f \<and> f \<notin> set (synth_release_files e cats) \<and> \<not> unlink_fails e f
           then None
           else (map_of dir ++ map_of (rev (synth_written e cats))) f))"
proof (cases "join_error cr")
  case (Some err)
  then show ?thesis by (simp add: main_join_error)
next
  case None
  obtain res w where g: "group_apps e metadataFiles [] = (res, w)"
    by (cases "group_apps e metadataFiles []")
  have r: "res = push_all (valid_descriptors e metadataFiles) []"
    using group_apps_push_all[of e metadataFiles "[]"] g by simp
  show ?thesis
  proof (cases "metadataFiles = []")
    case True
    then show ?thesis
      by (simp add: main_joined None)
  next
    case False
    then show ?thesis
      by (cases res) (simp_all add: main_joined None g r[symmetric] synthesize_files)
  qed
qed

lemma loadMetadata_invalid:
  assumes "field \<in> set requiredFields" "field_missing metadata field"
  shows "\<exists>i<length requiredFields.
           field_missing metadata (requiredFields ! i) \<and>
           (\<forall>j<i. \<not> field_missing metadata (requiredFields ! j)) \<and>
           loadMetadata e filePath (Parsed metadata) =
             (None, [Warn_missing_field filePath (requiredFields ! i)])"
proof -
  from assms have "find (field_missing metadata) requiredFields \<noteq> None"
    by (auto simp: find_None_iff)
  then obtain f where f: "find (field_missing metadata) requiredFields = Some f" by auto
  then obtain i where "i < length requiredFields" "requiredFields ! i = f" "field_missing metadata f"
      "\<forall>j<i. \<not> field_missing metadata (requiredFields ! j)"
    unfolding find_Some_iff by blast
  with f show ?thesis by auto
qed

lemma mset_insert_by: "mset (insert_by cmp x xs) = add_mset x (mset xs)"
  by (induction xs) auto

lemma mset_sort_by: "mset (sort_by cmp xs) = mset xs"
  unfolding sort_by_def by (induction xs) (auto simp: mset_insert_by)

lemma set_sort_by: "set (sort_by cmp xs) = set xs"
  by (metis mset_sort_by set_mset_mset)

lemma length_sort_by: "length (sort_by cmp xs) = length xs"
  by (metis mset_sort_by size_mset)

lemma set_insert_by: "set (insert_by cmp x xs) = insert x (set xs)"
  by (metis mset_insert_by set_mset_mset set_mset_add_mset_insert)

lemma sorted_insert_by:
  assumes "consistent cmp" "sorted_wrt (\<lambda>a b. cmp a b \<le> 0) xs"
  shows "sorted_wrt (\<lambda>a b. cmp a b \<le> 0) (insert_by cmp x xs)"
  using assms(2)
proof (induction xs)
  case Nil
  then show ?case by simp
next
  case (Cons y ys)
  from assms(1) have tot: "\<And>a b. cmp a b \<le> 0 \<or> cmp b a \<le> 0"
    and tr: "\<And>a b c. cmp a b \<le> 0 \<Longrightarrow> cmp b c \<le> 0 \<Longrightarrow> cmp a c \<le> 0"
    unfolding consistent_def by blast+
  show ?case
  proof (cases "cmp x y \<le> 0")
    case True
    with Cons.prems tr show ?thesis by auto
  next
    case False
    with tot have "cmp y x \<le> 0" by blast
    with False Cons show ?thesis by (auto simp: set_insert_by)
  qed
qed

lemma sorted_sort_by:
  "consistent cmp \<Longrightarrow> sorted_wrt (\<lambda>a b. cmp a b \<le> 0) (sort_by cmp xs)"
  unfolding sort_by_def by (induction xs) (auto intro: sorted_insert_by)

lemma generate_stderr_prefix:
  "generate e entries (\<lparr>files = fs, stderr = p @ l, written = w, failure = x\<rparr>, rf, cwr) =
     (case generate e entries (\<lparr>files = fs, stderr = l, written = w, failure = x\<rparr>, rf, cwr) of
        (s', rf', cwr') \<Rightarrow> (s'\<lparr>stderr := p @ stderr s'\<rparr>, rf', cwr'))"
proof (induction entries arbitrary: fs l w rf cwr)
  case Nil
  show ?case by simp
next
  case (Cons entry entries)
  obtain category apps where en: "entry = (category, apps)" by (cases entry)
  show ?case
  proof (cases "write_fails e (release_file_name e category)")
    case True
    then show ?thesis
      using Cons.IH[of fs "l @ [Error_write (release_file_name e category)]" w rf cwr]
      by (simp add: en writeFileSync_def Let_def)
  next
    case False
    then show ?thesis
      by (simp add: en writeFileSync_def Let_def Cons.IH)
  qed
qed

lemma write_or_log_stderr_prefix:
  "write_or_log e name c (s\<lparr>stderr := p @ stderr s\<rparr>) =
     (write_or_log e name c s)\<lparr>stderr := p @ stderr (write_or_log e name c s)\<rparr>"
  by (simp add: write_or_log_def writeFileSync_def)

lemma cleanup_stderr_prefix:
  "cleanup e rf ex \<lparr>files = fs, stderr = p @ l, written = w, failure = x\<rparr> =
     (cleanup e rf ex \<lparr>files = fs, stderr = l, written = w, failure = x\<rparr>)
       \<lparr>stderr := p @ stderr (cleanup e rf ex \<lparr>files = fs, stderr = l, written = w, failure = x\<rparr>)\<rparr>"
proof (induction ex arbitrary: fs l)
  case Nil
  show ?case by simp
next
  case (Cons y ex)
  show ?case
    using Cons.IH[of fs "l @ [Warn_remove y]"] Cons.IH[of "filter (\<lambda>(name, c). name \<noteq> y) fs" l]
      Cons.IH[of fs l]
    by simp
qed


lemma cleanup_stderr_prefix':
  "cleanup e rf ex (s\<lparr>stderr := p @ stderr s\<rparr>) =
     (cleanup e rf ex s)\<lparr>stderr := p @ stderr (cleanup e rf ex s)\<rparr>"
  by (cases s) (simp add: cleanup_stderr_prefix)

lemma generate_stderr_prefix':
  "generate e entries (s, rf, cwr) = (s1, rf1, cwr1) \<Longrightarrow>
   generate e entries (s\<lparr>stderr := p @ stderr s\<rparr>, rf, cwr) =
     (s1\<lparr>stderr := p @ stderr s1\<rparr>, rf1, cwr1)"
  by (cases s) (simp add: generate_stderr_prefix)

lemma synthesize_stderr_prefix:
  "synthesize e cats (s\<lparr>stderr := p @ stderr s\<rparr>) =
     (synthesize e cats s)\<lparr>stderr := p @ stderr (synthesize e cats s)\<rparr>"
proof -
  obtain s1 rf cwr where g: "generate e (object_entries cats) (s, [], []) = (s1, rf, cwr)"
    by (cases "generate e (object_entries cats) (s, [], [])") auto
  define c1 where "c1 = CategoriesFile (categories_index e (sort_groups e cats) cwr)"
  define c2 where "c2 = ReleasesFile (releases_index e (sort_groups e cats))"
  define s2 where "s2 = (if cwr \<noteq> [] then write_or_log e ''categories.json'' c1 s1 else s1)"
  define s3 where "s3 = (if sort_groups e cats \<noteq> [] then write_or_log e ''releases.json'' c2 s2 else s2)"
  define t1 where "t1 = s1\<lparr>stderr := p @ stderr s1\<rparr>"
  define t2 where "t2 = (if cwr \<noteq> [] then write_or_log e ''categories.json'' c1 t1 else t1)"
  define t3 where "t3 = (if sort_groups e cats \<noteq> [] then write_or_log e ''releases.json'' c2 t2 else t2)"
  have g': "generate e (object_entries cats) (s\<lparr>stderr := p @ stderr s\<rparr>, [], []) = (t1, rf, cwr)"
    unfolding t1_def by (rule generate_stderr_prefix'[OF g])
  have e2: "t2 = s2\<lparr>stderr := p @ stderr s2\<rparr>"
    by (simp add: t2_def s2_def t1_def write_or_log_stderr_prefix)
  have e3: "t3 = s3\<lparr>stderr := p @ stderr s3\<rparr>"
    by (simp add: t3_def s3_def e2 write_or_log_stderr_prefix)
  have f3: "files t3 = files s3" by (simp add: e3)
  have a: "synthesize e cats s = cleanup e rf (filter is_release_file (map fst (files s3))) s3"
    by (simp add: synthesize_def g Let_def s3_def s2_def c1_def c2_def)
  have b: "synthesize e cats (s\<lparr>stderr := p @ stderr s\<rparr>) =
      cleanup e rf (filter is_release_file (map fst (files t3))) t3"
    by (simp add: synthesize_def g' Let_def t3_def t2_def c1_def c2_def)
  show ?thesis
    unfolding a b e3 by (simp add: cleanup_stderr_prefix')
qed

lemma main_allow_list:
  assumes j: "join_error cr = None"
  shows "main e cr metadataFiles dir =
     (main e (Categories_parsed []) metadataFiles dir)
       \<lparr>stderr := snd (loadValidCategories cr) @
                  stderr (main e (Categories_parsed []) metadataFiles dir)\<rparr>"
proof -
  obtain w0 where c: "snd (loadValidCategories cr) = w0" by simp
  have j0: "join_error (Categories_parsed []) = None" by simp
  obtain res w where g: "group_apps e metadataFiles [] = (res, w)"
    by (cases "group_apps e metadataFiles []")
  show ?thesis
  proof (cases "metadataFiles = []")
    case True
    then show ?thesis by (simp add: main_joined j j0)
  next
    case False
    show ?thesis
    proof (cases res)
      case (Inl err)
      then show ?thesis using False by (simp add: main_joined j j0 g)
    next
      case (Inr cats)
      have "synthesize e cats \<lparr>files = dir, stderr = w0 @ w, written = [], failure = None\<rparr> =
          (synthesize e cats \<lparr>files = dir, stderr = w, written = [], failure = None\<rparr>)
            \<lparr>stderr := w0 @ stderr (synthesize e cats \<lparr>files = dir, stderr = w, written = [], failure = None\<rparr>)\<rparr>"
        using synthesize_stderr_prefix[where e = e and cats = cats and p = w0
            and s = "\<lparr>files = dir, stderr = w, written = [], failure = None\<rparr>"]
        by simp
      then show ?thesis using False by (simp add: main_joined j j0 c g Inr)
    qed
  qed
qed

lemma not_release_file_indexes:
  "\<not> is_release_file ''categories.json''" "\<not> is_release_file ''releases.json''"
  by (simp_all add: is_release_file_def startsWith_def endsWith_def)

lemma is_release_file_name: "is_release_file (release_file_name e c)"
  by (simp add: is_release_file_def startsWith_def endsWith_def release_file_name_def)

lemma set_object_entries: "set (object_entries obj) = set obj"
  by (auto simp: object_entries_def)

lemma synth_written_Nil: "synth_written e [] = []"
  by (simp add: synth_written_def object_entries_def wrote_def)

lemma synth_release_files_subset:
  "set (synth_release_files e cats) \<subseteq> release_file_name e ` fst ` set cats"
  by (auto simp: synth_release_files_def wrote_def set_object_entries)

lemma node_env_no_failure [simp]:
  "write_fails node_env name = False" "unlink_fails node_env name = False"
  by (simp_all add: node_env_def)

lemma valid_failed: "valid_descriptors e [(p, Failed msg)] = []"
  by (simp add: valid_descriptors_Cons valid_descriptors_Nil)

lemma release_file_name_Tools: "release_file_name node_env ''Tools'' = ''category-tools.json''"
  by code_simp

lemma valid_case_files:
  "valid_descriptors node_env case_files =
     [lower_descriptor @ [(''filePath'', JStr ''repositories/o1/r1/a'')],
      upper_descriptor @ [(''filePath'', JStr ''repositories/o2/r2/b'')]]"
  by (simp add: case_files_def valid_descriptors_Cons valid_descriptors_Nil requiredFields_def
      field_missing_def has_prop_def get_prop_def lower_descriptor_def upper_descriptor_def
      node_env_def posix_dirname_def replace_backslashes_def)

lemma case_groups:
  "push_all (valid_descriptors node_env case_files) [] =
     Inr [(''Tools'',
           [lower_descriptor @ [(''filePath'', JStr ''repositories/o1/r1/a'')],
            upper_descriptor @ [(''filePath'', JStr ''repositories/o2/r2/b'')]])]"
  by (simp add: valid_case_files push_app_def Let_def get_prop_def object_prototype_keys_def
      lower_descriptor_def upper_descriptor_def)

lemma entries_Tools: "object_entries [(''Tools'', apps)] = [(''Tools'', apps)]"
  by (simp add: object_entries_def is_array_index_def is_digit_def)

lemma sanitize_Tools: "sanitize node_env ''Tools'' = ''tools''"
  by code_simp

lemma compare_a_B:
  "compare_names node_env (lower_descriptor @ x) (upper_descriptor @ y) = - 1"
  by (simp add: compare_names_def node_env_def get_prop_def lower_descriptor_def
      upper_descriptor_def default_localeCompare_def collation_key_def lower_char_def is_upper_def)

lemma sort_case:
  "sort_by (compare_names node_env) [lower_descriptor @ x, upper_descriptor @ y] =
     [lower_descriptor @ x, upper_descriptor @ y]"
  by (simp add: sort_by_def compare_a_B)


lemma case_written:
  "written (main node_env (Categories_parsed []) case_files []) =
     [(''category-tools.json'',
       CategoryFile (ReleaseData ''Tools'' 2
         [[(''name'', JStr ''a''), (''description'', JStr ''d''), (''version'', JStr ''1.0''),
           (''slug'', JStr ''o1/r1/a'')],
          [(''name'', JStr ''B''), (''description'', JStr ''d''), (''version'', JStr ''2.0''),
           (''slug'', JStr ''o2/r2/B'')]])),
      (''categories.json'',
       CategoriesFile (CategoriesData 1 2 [CategoryEntry ''Tools'' ''tools'' 2])),
      (''releases.json'',
       ReleasesFile (ReleasesData 2
         [[(''name'', JStr ''a''), (''version'', JStr ''1.0''), (''slug'', JStr ''o1/r1/a/a'')],
          [(''name'', JStr ''B''), (''version'', JStr ''2.0''), (''slug'', JStr ''o2/r2/b/B'')]]))]"
proof -
  have nw: "write_fails node_env name = False" for name
    by (simp add: node_env_def)
  have m: "manifest_of node_env
      (''Tools'',
           [lower_descriptor @ [(''filePath'', JStr ''repositories/o1/r1/a'')],
            upper_descriptor @ [(''filePath'', JStr ''repositories/o2/r2/b'')]]) =
     (''category-tools.json'',
       CategoryFile (ReleaseData ''Tools'' 2
         [[(''name'', JStr ''a''), (''description'', JStr ''d''), (''version'', JStr ''1.0''),
           (''slug'', JStr ''o1/r1/a'')],
          [(''name'', JStr ''B''), (''description'', JStr ''d''), (''version'', JStr ''2.0''),
           (''slug'', JStr ''o2/r2/B'')]]))"
    by (simp add: manifest_of_def sort_case release_file_name_Tools)
       (simp add: clean_app_def Let_def get_prop_def lower_descriptor_def
          upper_descriptor_def)
  have w: "wrote node_env
      [(''Tools'',
           [lower_descriptor @ [(''filePath'', JStr ''repositories/o1/r1/a'')],
            upper_descriptor @ [(''filePath'', JStr ''repositories/o2/r2/b'')]])] =
      [(''Tools'',
           [lower_descriptor @ [(''filePath'', JStr ''repositories/o1/r1/a'')],
            upper_descriptor @ [(''filePath'', JStr ''repositories/o2/r2/b'')]])]"
    by (simp add: wrote_def nw)
  have c: "categories_index node_env
      [(''Tools'',
           [lower_descriptor @ [(''filePath'', JStr ''repositories/o1/r1/a'')],
            upper_descriptor @ [(''filePath'', JStr ''repositories/o2/r2/b'')]])] [''Tools''] =
      CategoriesData 1 2 [CategoryEntry ''Tools'' ''tools'' 2]"
    by (simp add: categories_index_def entries_Tools sanitize_Tools sort_by_def)
  have r: "releases_index node_env
      [(''Tools'',
           [lower_descriptor @ [(''filePath'', JStr ''repositories/o1/r1/a'')],
            upper_descriptor @ [(''filePath'', JStr ''repositories/o2/r2/b'')]])] =
      ReleasesData 2
         [[(''name'', JStr ''a''), (''version'', JStr ''1.0''), (''slug'', JStr ''o1/r1/a/a'')],
          [(''name'', JStr ''B''), (''version'', JStr ''2.0''), (''slug'', JStr ''o2/r2/b/B'')]]"
    by (simp add: releases_index_def entries_Tools release_entry_def get_prop_def
        lower_descriptor_def upper_descriptor_def Let_def sort_by_def compare_names_def
        node_env_def default_localeCompare_def collation_key_def lower_char_def is_upper_def)
  show ?thesis
    by (simp add: main_written case_groups synth_written_def entries_Tools m w c r
        sort_groups_def sort_case nw)
qed

lemma map_of_filter_keys:
  "map_of (filter (\<lambda>(k, v). P k) obj) k = (if P k then map_of obj k else None)"
  by (induction obj) auto

lemma name_of_clean_app: "name_of (clean_app app) = name_of app"
  by (simp add: name_of_def clean_app_def Let_def get_prop_def map_of_set_prop map_of_filter_keys)

lemma name_of_release_entry: "name_of (release_entry app) = name_of app"
  by (simp add: name_of_def release_entry_def get_prop_def)

lemma compare_names_name_of: "compare_names e a b = localeCompare e (name_of a) (name_of b)"
  by (simp add: compare_names_def name_of_def)

lemma consistent_compare_names: "consistent (localeCompare e) \<Longrightarrow> consistent (compare_names e)"
  unfolding consistent_def compare_names_name_of by blast

lemma names_sorted_sort_by:
  "consistent (localeCompare e) \<Longrightarrow> names_sorted e (sort_by (compare_names e) apps)"
  using sorted_sort_by[OF consistent_compare_names, of e apps]
  by (simp add: names_sorted_def sorted_wrt_map compare_names_name_of)

lemma names_sorted_map_clean: "names_sorted e (map clean_app apps) = names_sorted e apps"
  by (simp add: names_sorted_def comp_def name_of_clean_app)


lemma in_synth_written:
  assumes "(name, c) \<in> set (synth_written e cats)"
  shows "(\<exists>entry\<in>set cats. (name, c) = manifest_of e entry) \<or>
         (\<exists>d. c = CategoriesFile d) \<or>
         (name = ''releases.json'' \<and> c = ReleasesFile (releases_index e (sort_groups e cats)))"
  using assms
  by (auto simp: synth_written_def wrote_def set_object_entries split: if_splits)

lemma in_main_written:
  assumes "(name, c) \<in> set (written (main e cr metadataFiles dir))"
  shows "\<exists>cats. push_all (valid_descriptors e metadataFiles) [] = Inr cats \<and>
           (name, c) \<in> set (synth_written e cats)"
proof (cases "push_all (valid_descriptors e metadataFiles) []")
  case (Inl err)
  with assms show ?thesis by (simp add: main_written split: if_splits)
next
  case (Inr cats)
  with assms show ?thesis by (simp add: main_written split: if_splits)
qed

lemma default_localeCompare_le:
  "default_localeCompare a b \<le> 0 \<longleftrightarrow> collation_key a \<le> collation_key b"
  by (auto simp: default_localeCompare_def)

lemma consistent_default: "consistent (localeCompare node_env)"
  unfolding consistent_def node_env_def
  by (auto simp: default_localeCompare_le)

lemma mset_object_entries: "mset (object_entries obj) = mset obj"
  unfolding object_entries_def
  by (simp add: multiset_partition[symmetric])

lemma mset_flat:
  "mset (concat (map snd zs)) = sum_mset (image_mset (\<lambda>z. mset (snd z)) (mset zs))"
  by (induction zs) auto

lemma mset_flat_cong:
  assumes "mset xs = mset ys"
  shows "mset (concat (map snd xs)) = mset (concat (map snd ys))"
  unfolding mset_flat assms ..

lemma mset_flat_sort_groups:
  "mset (concat (map snd (sort_groups e cats))) = mset (concat (map snd cats))"
  by (induction cats) (auto simp: sort_groups_def mset_sort_by)

lemma mset_flat_set_prop_Some:
  "map_of obj k = Some v \<Longrightarrow>
   mset (concat (map snd (set_prop k (v @ [m]) obj))) = add_mset m (mset (concat (map snd obj)))"
  by (induction obj) (auto split: if_splits)

lemma set_prop_None: "map_of obj k = None \<Longrightarrow> set_prop k v obj = obj @ [(k, v)]"
  by (induction obj) (auto split: if_splits)

lemma mset_flat_push_app:
  assumes "push_app m cats = Inr cats'"
  shows "mset (concat (map snd cats')) = add_mset m (mset (concat (map snd cats)))"
proof (cases "map_of cats (to_string (get_prop m ''category''))")
  case None
  with assms show ?thesis
    by (auto simp: push_app_def Let_def set_prop_None split: if_splits)
next
  case (Some apps)
  with assms show ?thesis
    by (auto simp: push_app_def Let_def mset_flat_set_prop_Some)
qed

lemma mset_flat_push_all:
  "push_all ms cats = Inr cats' \<Longrightarrow>
   mset (concat (map snd cats')) = mset (concat (map snd cats)) + mset ms"
proof (induction ms arbitrary: cats)
  case Nil
  then show ?case by simp
next
  case (Cons m ms)
  from Cons.prems obtain cats1 where p: "push_app m cats = Inr cats1"
    and r: "push_all ms cats1 = Inr cats'"
    by (auto split: sum.splits)
  show ?case
    by (simp add: Cons.IH[OF r] mset_flat_push_app[OF p])
qed

lemma concat_release_entries:
  "concat (map (\<lambda>(category, apps). map release_entry apps) entries) =
     map release_entry (concat (map snd entries))"
  by (induction entries) auto

lemma mset_releases_index:
  assumes "push_all ms [] = Inr cats"
  shows "mset (rl_apps (releases_index e (sort_groups e cats))) = image_mset release_entry (mset ms)"
proof -
  have "mset (concat (map snd (object_entries (sort_groups e cats)))) = mset ms"
    using mset_flat_cong[OF mset_object_entries, of "sort_groups e cats"]
      mset_flat_sort_groups[of e cats] mset_flat_push_all[OF assms]
    by simp
  then show ?thesis
    by (simp add: releases_index_def Let_def mset_sort_by concat_release_entries)
qed

lemma group_of_category:
  assumes "push_all ms [] = Inr cats" and "(c, apps) \<in> set cats"
  shows "apps = filter (\<lambda>m. category_of m = c) ms \<and> apps \<noteq> []"
proof -
  have d: "distinct (map fst cats)"
    using push_all_distinct[OF assms(1)] by simp
  then have "map_of cats c = Some apps"
    using assms(2) by simp
  with push_all_map_of[OF assms(1), of c]
  have "(if \<exists>m\<in>set ms. category_of m = c
      then Some (filter (\<lambda>m. category_of m = c) ms) else None) = Some apps"
    by simp
  then have e: "\<exists>m\<in>set ms. category_of m = c" and f: "filter (\<lambda>m. category_of m = c) ms = apps"
    by (auto split: if_splits)
  from e have "filter (\<lambda>m. category_of m = c) ms \<noteq> []"
    by (auto simp: filter_empty_conv)
  with f show ?thesis by simp
qed

lemma release_entry_collapse:
  "release_entry m =
     [(''name'', get_prop m ''name''), (''version'', get_prop m ''version''),
      (''slug'', JStr (collapse_slashes
         (to_string (get_prop m ''owner'') @ ''/'' @ to_string (get_prop m ''repo'') @
          to_string (get_prop m ''path'') @ to_string (get_prop m ''name''))))]"
  by (simp add: release_entry_def replace_slash_runs_collapse)

lemma release_entry_bar:
  "release_entry bar_descriptor =
     [(''name'', JStr ''Bar''), (''version'', JStr ''2.0''), (''slug'', JStr ''o2/r2/b/Bar'')]"
  by (simp add: release_entry_def bar_descriptor_def get_prop_def)

lemma written_releases_index:
  assumes "(name, ReleasesFile d) \<in> set (written (main e cr metadataFiles dir))"
  shows "mset (rl_apps d) = image_mset release_entry (mset (valid_descriptors e metadataFiles))"
proof -
  from in_main_written[OF assms] obtain cats
    where p: "push_all (valid_descriptors e metadataFiles) [] = Inr cats"
      and w: "(name, ReleasesFile d) \<in> set (synth_written e cats)" by blast
  from in_synth_written[OF w] have "d = releases_index e (sort_groups e cats)"
    by (auto simp: manifest_of_def)
  then show ?thesis by (simp add: mset_releases_index[OF p])
qed

lemma written_manifest:
  assumes "(name, CategoryFile d) \<in> set (written (main e cr metadataFiles dir))"
  shows "mset (rd_apps d) = image_mset clean_app
           (filter_mset (\<lambda>m. category_of m = rd_category d) (mset (valid_descriptors e metadataFiles))) \<and>
         rd_count d = length (rd_apps d) \<and> rd_apps d \<noteq> [] \<and> name = release_file_name e (rd_category d)"
proof -
  from in_main_written[OF assms] obtain cats
    where p: "push_all (valid_descriptors e metadataFiles) [] = Inr cats"
      and w: "(name, CategoryFile d) \<in> set (synth_written e cats)" by blast
  from in_synth_written[OF w] obtain c apps where en: "(c, apps) \<in> set cats"
    and m: "(name, CategoryFile d) = manifest_of e (c, apps)"
    by auto
  note g = group_of_category[OF p en]
  have a: "apps = filter (\<lambda>m. category_of m = c) (valid_descriptors e metadataFiles)"
    by (rule g[THEN conjunct1])
  have ne: "apps \<noteq> []"
    by (rule g[THEN conjunct2])
  from m have d: "d = ReleaseData c (length (sort_by (compare_names e) apps))
      (map clean_app (sort_by (compare_names e) apps))" and n: "name = release_file_name e c"
    by (simp_all add: manifest_of_def)
  have ne': "sort_by (compare_names e) apps \<noteq> []"
    using ne length_sort_by[of "compare_names e" apps] by auto
  show ?thesis
    using ne' by (simp add: d n mset_sort_by a)
qed

lemma loadMetadata_Some:
  assumes "loadMetadata e filePath (Parsed descriptor) = (Some metadata, w)"
  shows "metadata = set_prop ''filePath''
           (JStr (replace_backslashes (path_dirname e filePath))) descriptor \<and> w = []"
  using assms by (auto split: option.splits)

lemma get_prop_set_prop:
  "get_prop (set_prop k v obj) k' = (if k' = k then v else get_prop obj k')"
  by (simp add: get_prop_def map_of_set_prop)

lemma filter_set_prop_drop2:
  "\<not> P k \<Longrightarrow>
   filter (\<lambda>(k', v'). P k') (set_prop k v obj) = filter (\<lambda>(k', v'). P k') obj"
  by (induction obj) auto

lemma clean_app_loaded:
  "clean_app (set_prop ''filePath'' v descriptor) =
     set_prop ''slug''
       (JStr (to_string (get_prop descriptor ''owner'') @ ''/'' @
              to_string (get_prop descriptor ''repo'') @ ''/'' @
              to_string (get_prop descriptor ''name'')))
       (filter (\<lambda>(k, v). k \<notin> {''commit'', ''owner'', ''repo'', ''path'', ''filePath'',
                            ''category'', ''files''}) descriptor)"
proof -
  have "filter (\<lambda>(k, v). k \<notin> {''commit'', ''owner'', ''repo'', ''path'', ''filePath'',
                            ''category'', ''files''}) (set_prop ''filePath'' v descriptor) =
        filter (\<lambda>(k, v). k \<notin> {''commit'', ''owner'', ''repo'', ''path'', ''filePath'',
                            ''category'', ''files''}) descriptor"
    by (rule filter_set_prop_drop2) simp
  then show ?thesis
    by (simp add: clean_app_def Let_def get_prop_set_prop)
qed

lemma clean_app_slug:
  "get_prop (clean_app app) ''slug'' =
     JStr (to_string (get_prop app ''owner'') @ ''/'' @ to_string (get_prop app ''repo'') @ ''/'' @
           to_string (get_prop app ''name''))"
  by (simp add: clean_app_def Let_def get_prop_set_prop)

lemma run_completes_iff:
  "failure (main e cr metadataFiles dir) = None \<longleftrightarrow>
     join_error cr = None \<and>
     (\<forall>m\<in>set (valid_descriptors e metadataFiles). category_of m \<notin> set object_prototype_keys)"
proof -
  have "failure (main e cr metadataFiles dir) = None \<longleftrightarrow>
      join_error cr = None \<and>
      (\<exists>cats. push_all (valid_descriptors e metadataFiles) [] = Inr cats)"
    by (cases "push_all (valid_descriptors e metadataFiles) []"; cases "join_error cr")
       (simp_all add: main_failure)
  then show ?thesis
    by (simp add: push_all_completes_iff)
qed

lemma valid_constructor:
  "valid_descriptors e constructor_files =
     [constructor_descriptor @
      [(''filePath'', JStr (replace_backslashes
          (path_dirname e ''repositories/o1/r1/a/metadata.json'')))]]"
  by (simp add: constructor_files_def valid_descriptors_Cons valid_descriptors_Nil
      requiredFields_def field_missing_def has_prop_def get_prop_def constructor_descriptor_def)

lemma valid_scenario_files:
  "valid_descriptors node_env scenario_files =
     [foo_descriptor @ [(''filePath'', JStr ''repositories/o1/r1/a'')],
      bar_descriptor @ [(''filePath'', JStr ''repositories/o2/r2/b'')]]"
  by (simp add: scenario_files_def valid_descriptors_Cons valid_descriptors_Nil requiredFields_def
      field_missing_def has_prop_def get_prop_def foo_descriptor_def bar_descriptor_def
      node_env_def posix_dirname_def replace_backslashes_def)

lemma scenario_groups:
  "push_all (valid_descriptors node_env scenario_files) [] =
     Inr [(''Tools'',
           [foo_descriptor @ [(''filePath'', JStr ''repositories/o1/r1/a'')],
            bar_descriptor @ [(''filePath'', JStr ''repositories/o2/r2/b'')]])]"
  by (simp add: valid_scenario_files push_app_def Let_def get_prop_def object_prototype_keys_def
      foo_descriptor_def bar_descriptor_def)

lemma compare_Foo_Bar:
  "compare_names node_env (foo_descriptor @ x) (bar_descriptor @ y) = 1"
  by (simp add: compare_names_def node_env_def get_prop_def foo_descriptor_def
      bar_descriptor_def default_localeCompare_def collation_key_def lower_char_def is_upper_def)

lemma sort_scenario:
  "sort_by (compare_names node_env) [foo_descriptor @ x, bar_descriptor @ y] =
     [bar_descriptor @ y, foo_descriptor @ x]"
  by (simp add: sort_by_def compare_Foo_Bar)

lemma scenario_written:
  "written (main node_env (Categories_parsed []) scenario_files []) =
     [(''category-tools.json'',
       CategoryFile (ReleaseData ''Tools'' 2
         [[(''name'', JStr ''Bar''), (''version'', JStr ''2.0''), (''description'', JStr ''d''),
           (''slug'', JStr ''o2/r2/Bar'')],
          [(''name'', JStr ''Foo''), (''version'', JStr ''1.0''), (''description'', JStr ''d''),
           (''slug'', JStr ''o1/r1/Foo'')]])),
      (''categories.json'',
       CategoriesFile (CategoriesData 1 2 [CategoryEntry ''Tools'' ''tools'' 2])),
      (''releases.json'',
       ReleasesFile (ReleasesData 2
         [[(''name'', JStr ''Bar''), (''version'', JStr ''2.0''), (''slug'', JStr ''o2/r2/b/Bar'')],
          [(''name'', JStr ''Foo''), (''version'', JStr ''1.0''),
           (''slug'', JStr ''o1/r1/a/Foo'')]]))]"
proof -
  have nw: "write_fails node_env name = False" for name
    by (simp add: node_env_def)
  have m: "manifest_of node_env
      (''Tools'',
           [foo_descriptor @ [(''filePath'', JStr ''repositories/o1/r1/a'')],
            bar_descriptor @ [(''filePath'', JStr ''repositories/o2/r2/b'')]]) =
     (''category-tools.json'',
       CategoryFile (ReleaseData ''Tools'' 2
         [[(''name'', JStr ''Bar''), (''version'', JStr ''2.0''), (''description'', JStr ''d''),
           (''slug'', JStr ''o2/r2/Bar'')],
          [(''name'', JStr ''Foo''), (''version'', JStr ''1.0''), (''description'', JStr ''d''),
           (''slug'', JStr ''o1/r1/Foo'')]]))"
    by (simp add: manifest_of_def sort_scenario release_file_name_Tools)
       (simp add: clean_app_def Let_def get_prop_def foo_descriptor_def bar_descriptor_def)
  have w: "wrote node_env
      [(''Tools'',
           [foo_descriptor @ [(''filePath'', JStr ''repositories/o1/r1/a'')],
            bar_descriptor @ [(''filePath'', JStr ''repositories/o2/r2/b'')]])] =
      [(''Tools'',
           [foo_descriptor @ [(''filePath'', JStr ''repositories/o1/r1/a'')],
            bar_descriptor @ [(''filePath'', JStr ''repositories/o2/r2/b'')]])]"
    by (simp add: wrote_def nw)
  have c: "categories_index node_env
      [(''Tools'',
           [bar_descriptor @ [(''filePath'', JStr ''repositories/o2/r2/b'')],
            foo_descriptor @ [(''filePath'', JStr ''repositories/o1/r1/a'')]])] [''Tools''] =
      CategoriesData 1 2 [CategoryEntry ''Tools'' ''tools'' 2]"
    by (simp add: categories_index_def entries_Tools sanitize_Tools sort_by_def)
  have r: "releases_index node_env
      [(''Tools'',
           [bar_descriptor @ [(''filePath'', JStr ''repositories/o2/r2/b'')],
            foo_descriptor @ [(''filePath'', JStr ''repositories/o1/r1/a'')]])] =
      ReleasesData 2
         [[(''name'', JStr ''Bar''), (''version'', JStr ''2.0''), (''slug'', JStr ''o2/r2/b/Bar'')],
          [(''name'', JStr ''Foo''), (''version'', JStr ''1.0''),
           (''slug'', JStr ''o1/r1/a/Foo'')]]"
    by (simp add: releases_index_def entries_Tools release_entry_def get_prop_def
        foo_descriptor_def bar_descriptor_def Let_def sort_by_def compare_names_def
        node_env_def default_localeCompare_def collation_key_def lower_char_def is_upper_def)
  show ?thesis
    by (simp add: main_written scenario_groups synth_written_def entries_Tools m w c r
        sort_groups_def sort_scenario nw)
qed

lemma release_file_name_tools: "release_file_name node_env ''tools'' = ''category-tools.json''"
  by code_simp

lemma valid_tools_files:
  "valid_descriptors e tools_files =
     [tools_descriptor @
      [(''filePath'', JStr (replace_backslashes
          (path_dirname e ''repositories/o1/r1/a/metadata.json'')))]]"
  by (simp add: tools_files_def valid_descriptors_Cons valid_descriptors_Nil
      requiredFields_def field_missing_def has_prop_def get_prop_def tools_descriptor_def)

lemma same_file_name_keeps_manifest:
  "map category_of (valid_descriptors node_env tools_files) = [''tools''] \<and>
   release_file_name node_env ''tools'' = release_file_name node_env ''Tools'' \<and>
   failure (main node_env (Categories_parsed []) tools_files stale_directory) = None \<and>
   map_of (files (main node_env (Categories_parsed []) tools_files stale_directory))
     (release_file_name node_env ''Tools'') \<noteq> None"
proof -
  have c: "map category_of (valid_descriptors node_env tools_files) = [''tools'']"
    by (simp add: valid_tools_files category_of_def get_prop_def tools_descriptor_def)
  have p: "push_all (valid_descriptors node_env tools_files) [] =
      Inr [(''tools'', valid_descriptors node_env tools_files)]"
    by (simp add: valid_tools_files push_app_def Let_def get_prop_def tools_descriptor_def
        object_prototype_keys_def)
  have e: "object_entries [(''tools'', apps)] = [(''tools'', apps)]" for apps :: "jsobject list"
    by (simp add: object_entries_def is_array_index_def is_digit_def)
  have r: "synth_release_files node_env [(''tools'', apps)] = [''category-tools.json'']"
    for apps
    by (simp add: synth_release_files_def e wrote_def release_file_name_tools
        node_env_no_failure)
  have d: "map_of stale_directory ''category-tools.json'' \<noteq> None"
    by (simp add: stale_directory_def)
  have f: "map_of (files (main node_env (Categories_parsed []) tools_files stale_directory))
     ''category-tools.json'' \<noteq> None"
  proof -
    have ne: "tools_files \<noteq> []"
      by (simp add: tools_files_def)
    show ?thesis
      using d by (simp add: main_files p r ne map_add_def split: option.splits)
  qed
  have x: "failure (main node_env (Categories_parsed []) tools_files stale_directory) = None"
    by (simp add: main_failure p)
  from c f x show ?thesis
    by (simp add: release_file_name_tools release_file_name_Tools)
qed






lemma array_allow_list_not_enforced:
  assumes "join_error cr = None" and "join_error cr' = None"
  shows "files (main e cr metadataFiles dir) = files (main e cr' metadataFiles dir) \<and>
   written (main e cr metadataFiles dir) = written (main e cr' metadataFiles dir) \<and>
   failure (main e cr metadataFiles dir) = failure (main e cr' metadataFiles dir) \<and>
   stderr (main e cr metadataFiles dir) =
     snd (loadValidCategories cr) @ stderr (main e (Categories_parsed []) metadataFiles dir)"
proof -
  let ?m0 = "main e (Categories_parsed []) metadataFiles dir"
  have a: "main e cr metadataFiles dir = ?m0\<lparr>stderr := snd (loadValidCategories cr) @ stderr ?m0\<rparr>"
    by (rule main_allow_list[OF assms(1)])
  have b: "main e cr' metadataFiles dir = ?m0\<lparr>stderr := snd (loadValidCategories cr') @ stderr ?m0\<rparr>"
    by (rule main_allow_list[OF assms(2)])
  have "files (main e cr metadataFiles dir) = files (main e cr' metadataFiles dir)"
    by (subst a, subst b) simp
  moreover have "written (main e cr metadataFiles dir) = written (main e cr' metadataFiles dir)"
    by (subst a, subst b) simp
  moreover have "failure (main e cr metadataFiles dir) = failure (main e cr' metadataFiles dir)"
    by (subst a, subst b) simp
  moreover have "stderr (main e cr metadataFiles dir) = snd (loadValidCategories cr) @ stderr ?m0"
    by (subst a) simp
  ultimately show ?thesis by simp
qed

lemma scenario_written_failed_load:
  "written (main node_env (Categories_failed msg) scenario_files dir) =
     written (main node_env (Categories_parsed []) scenario_files [])"
  by (simp add: main_written)

lemma loadValidCategories_warnings:
  "filter (warns_about fp) (snd (loadValidCategories cr)) = []"
  by (cases cr) simp_all

lemma write_or_log_warnings:
  "filter (warns_about fp) (stderr (write_or_log e name c s)) = filter (warns_about fp) (stderr s)"
  by (simp add: write_or_log_def writeFileSync_def)

lemma generate_warnings:
  "generate e entries (s, rf, cwr) = (s', rf', cwr') \<Longrightarrow>
   filter (warns_about fp) (stderr s') = filter (warns_about fp) (stderr s)"
proof (induction entries arbitrary: s rf cwr)
  case Nil
  then show ?case by simp
next
  case (Cons entry entries)
  obtain category apps where en: "entry = (category, apps)" by (cases entry)
  show ?case
  proof (cases "write_fails e (release_file_name e category)")
    case True
    with Cons.prems have "generate e entries
        (s\<lparr>stderr := stderr s @ [Error_write (release_file_name e category)]\<rparr>, rf, cwr) =
        (s', rf', cwr')"
      by (simp add: en Let_def writeFileSync_def)
    from Cons.IH[OF this] show ?thesis by simp
  next
    case False
    with Cons.prems obtain s1 rf1 cwr1 where
      "generate e entries (s1, rf1, cwr1) = (s', rf', cwr')" "stderr s1 = stderr s"
      by (simp add: en Let_def writeFileSync_def)
    with Cons.IH[of s1 rf1 cwr1] show ?thesis by simp
  qed
qed

lemma cleanup_warnings:
  "filter (warns_about fp) (stderr (cleanup e rf ex s)) = filter (warns_about fp) (stderr s)"
  by (induction ex arbitrary: s) simp_all

lemma synthesize_warnings:
  "filter (warns_about fp) (stderr (synthesize e cats s)) = filter (warns_about fp) (stderr s)"
proof -
  obtain s1 rf cwr where g: "generate e (object_entries cats) (s, [], []) = (s1, rf, cwr)"
    by (cases "generate e (object_entries cats) (s, [], [])") auto
  have "filter (warns_about fp) (stderr s1) = filter (warns_about fp) (stderr s)"
    by (rule generate_warnings[OF g])
  then show ?thesis
    by (simp add: synthesize_def g Let_def cleanup_warnings write_or_log_warnings)
qed

lemma main_warnings:
  assumes "join_error cr = None"
  shows "filter (warns_about fp) (stderr (main e cr metadataFiles dir)) =
         filter (warns_about fp) (snd (group_apps e metadataFiles []))"
proof -
  obtain res w where g: "group_apps e metadataFiles [] = (res, w)"
    by (cases "group_apps e metadataFiles []") auto
  show ?thesis
  proof (cases "metadataFiles = []")
    case True
    then show ?thesis
      by (simp add: main_joined[OF assms] loadValidCategories_warnings split: prod.splits)
  next
    case False
    then show ?thesis
      by (cases res)
         (simp_all add: main_joined[OF assms] g loadValidCategories_warnings synthesize_warnings
           split: prod.splits)
  qed
qed

lemma group_apps_append:
  "fst (group_apps e before cats) = Inr cats1 \<Longrightarrow>
   group_apps e (before @ rest) cats =
     (fst (group_apps e rest cats1), snd (group_apps e before cats) @ snd (group_apps e rest cats1))"
proof (induction before arbitrary: cats)
  case Nil
  then show ?case by simp
next
  case (Cons f before)
  obtain p r where f: "f = (p, r)" by (cases f)
  obtain mo w where l: "loadMetadata e p r = (mo, w)" by (cases "loadMetadata e p r")
  show ?case
  proof (cases mo)
    case None
    with Cons.prems have "fst (group_apps e before cats) = Inr cats1"
      by (simp add: f l split: prod.splits)
    from Cons.IH[OF this] show ?thesis
      by (simp add: f l None split: prod.splits)
  next
    case (Some metadata)
    show ?thesis
    proof (cases "push_app metadata cats")
      case (Inl err)
      with Cons.prems show ?thesis by (simp add: f l Some)
    next
      case (Inr cats')
      with Cons.prems have "fst (group_apps e before cats') = Inr cats1"
        by (simp add: f l Some split: prod.splits)
      from Cons.IH[OF this] show ?thesis
        by (simp add: f l Some Inr split: prod.splits)
    qed
  qed
qed

lemma group_apps_abort_append:
  "fst (group_apps e before cats) = Inl err \<Longrightarrow>
   group_apps e (before @ rest) cats = group_apps e before cats"
proof (induction before arbitrary: cats)
  case Nil
  then show ?case by simp
next
  case (Cons f before)
  obtain p r where f: "f = (p, r)" by (cases f)
  obtain mo w where l: "loadMetadata e p r = (mo, w)" by (cases "loadMetadata e p r")
  show ?case
  proof (cases mo)
    case None
    with Cons.prems have "fst (group_apps e before cats) = Inl err"
      by (simp add: f l split: prod.splits)
    from Cons.IH[OF this] show ?thesis
      by (simp add: f l None)
  next
    case (Some metadata)
    show ?thesis
    proof (cases "push_app metadata cats")
      case (Inl err')
      then show ?thesis by (simp add: f l Some)
    next
      case (Inr cats')
      with Cons.prems have "fst (group_apps e before cats') = Inl err"
        by (simp add: f l Some split: prod.splits)
      from Cons.IH[OF this] show ?thesis
        by (simp add: f l Some Inr)
    qed
  qed
qed

lemma loadMetadata_warnings:
  "p \<noteq> fp \<Longrightarrow> filter (warns_about fp) (snd (loadMetadata e p r)) = []"
  by (cases r) (simp_all split: option.splits)

lemma group_apps_warnings_other:
  "fp \<notin> fst ` set fs \<Longrightarrow> filter (warns_about fp) (snd (group_apps e fs cats)) = []"
proof (induction fs arbitrary: cats)
  case Nil
  then show ?case by simp
next
  case (Cons f fs)
  obtain p r where f: "f = (p, r)" by (cases f)
  from Cons.prems have ne: "p \<noteq> fp" and rest: "fp \<notin> fst ` set fs" by (auto simp: f)
  have w: "filter (warns_about fp) (snd (loadMetadata e p r)) = []"
    by (rule loadMetadata_warnings[OF ne])
  obtain mo lw where l: "loadMetadata e p r = (mo, lw)" by (cases "loadMetadata e p r")
  from w have lw: "filter (warns_about fp) lw = []" by (simp add: l)
  have ih: "filter (warns_about fp) w' = []" if "group_apps e fs c = (res, w')" for c res w'
    using Cons.IH[OF rest, of c] that by simp
  show ?case
    using lw by (auto simp: f l ih split: option.splits sum.splits prod.splits)
qed

lemma group_apps_invalid_head:
  "loadMetadata e filePath r = (None, w) \<Longrightarrow>
   snd (group_apps e ((filePath, r) # rest) cats) = w @ snd (group_apps e rest cats)"
  by (simp split: prod.splits)

lemma reached_descriptor_warnings:
  assumes j: "join_error cr = None"
    and b: "fst (group_apps e before []) = Inr cats"
    and n: "filePath \<notin> fst ` set (before @ after)"
    and l: "loadMetadata e filePath r = (None, w)"
  shows "filter (warns_about filePath) (stderr (main e cr (before @ (filePath, r) # after) dir)) =
         filter (warns_about filePath) w"
proof -
  from n have nb: "filePath \<notin> fst ` set before" and na: "filePath \<notin> fst ` set after"
    by auto
  have "filter (warns_about filePath) (snd (group_apps e (before @ (filePath, r) # after) [])) =
        filter (warns_about filePath) w"
    by (simp only: group_apps_append[OF b] snd_conv filter_append
        group_apps_warnings_other[OF nb] group_apps_invalid_head[OF l]
        group_apps_warnings_other[OF na] append_Nil append_Nil2)
  then show ?thesis by (simp only: main_warnings[OF j])
qed

lemma unreached_descriptor_not_warned:
  assumes b: "fst (group_apps e before []) = Inl err"
    and n: "filePath \<notin> fst ` set before"
  shows "filter (warns_about filePath) (stderr (main e cr (before @ (filePath, r) # after) dir)) = []"
proof (cases "join_error cr")
  case None
  show ?thesis
    by (simp only: main_warnings[OF None] group_apps_abort_append[OF b]
        group_apps_warnings_other[OF n])
next
  case (Some err')
  show ?thesis
    by (simp add: main_join_error[OF Some] loadValidCategories_warnings)
qed

lemma incomplete_files_split:
  "incomplete_files =
     [(''repositories/o1/r1/a/metadata.json'', Parsed foo_descriptor)] @
     (''repositories/o3/r3/c/metadata.json'', Parsed incomplete_descriptor) #
     [(''repositories/o2/r2/b/metadata.json'', Parsed bar_descriptor)]"
  "scenario_files =
     [(''repositories/o1/r1/a/metadata.json'', Parsed foo_descriptor)] @
     [(''repositories/o2/r2/b/metadata.json'', Parsed bar_descriptor)]"
  by (simp_all add: incomplete_files_def scenario_files_def)

lemma incomplete_first_missing:
  "loadMetadata e ''repositories/o3/r3/c/metadata.json'' (Parsed incomplete_descriptor) =
     (None, [Warn_missing_field ''repositories/o3/r3/c/metadata.json'' ''category''])"
  by (simp add: requiredFields_def field_missing_def has_prop_def get_prop_def
      incomplete_descriptor_def)

lemma foo_grouped:
  "fst (group_apps node_env [(''repositories/o1/r1/a/metadata.json'', Parsed foo_descriptor)] []) =
     Inr [(''Tools'', [foo_descriptor @ [(''filePath'', JStr ''repositories/o1/r1/a'')]])]"
  by (simp add: requiredFields_def field_missing_def has_prop_def get_prop_def
      foo_descriptor_def node_env_def posix_dirname_def replace_backslashes_def push_app_def
      Let_def object_prototype_keys_def)

section \<open>The claims\<close>

subsection \<open>C9: the name of a category manifest\<close>



subsection \<open>C3: a descriptor with a missing or empty required field\<close>

text \<open>
  Claim C3. Let a descriptor have a required field that is absent, \<^verbatim>\<open>null\<close>,
  \<^verbatim>\<open>undefined\<close> or the empty string. Then \<^verbatim>\<open>loadMetadata\<close> returns no descriptor
  and emits one warning, which names the first such field in the order of
  \<open>requiredFields\<close>. In a run that reaches the file, that is, one where line 73 does
  not throw and the grouping of the files discovered before it completes, and where no
  other discovered file has its path, standard error at the end of the run holds
  exactly one warning about the file, that one. The descriptor reaches no output: the
  valid descriptors, the category groups and everything the run writes (category
  manifests, the categories index with its counts, the releases index) are those of the
  run without that file.
\<close>

theorem invalid_descriptor_excluded:
  assumes "field \<in> set requiredFields" and "field_missing metadata field"
  shows "(\<exists>i<length requiredFields.
           field_missing metadata (requiredFields ! i) \<and>
           (\<forall>j<i. \<not> field_missing metadata (requiredFields ! j)) \<and>
           loadMetadata e filePath (Parsed metadata) =
             (None, [Warn_missing_field filePath (requiredFields ! i)]) \<and>
           (join_error cr = None \<and> fst (group_apps e before []) = Inr cats \<and>
            filePath \<notin> fst ` set (before @ after) \<longrightarrow>
            filter (warns_about filePath)
              (stderr (main e cr (before @ (filePath, Parsed metadata) # after) dir)) =
              [Warn_missing_field filePath (requiredFields ! i)])) \<and>
         valid_descriptors e (before @ (filePath, Parsed metadata) # after) =
           valid_descriptors e (before @ after) \<and>
         fst (group_apps e (before @ (filePath, Parsed metadata) # after) []) =
           fst (group_apps e (before @ after) []) \<and>
         written (main e cr (before @ (filePath, Parsed metadata) # after) dir) =
           written (main e cr (before @ after) dir)"
proof -
  from loadMetadata_invalid[OF assms, of e filePath] obtain i where
    i: "i < length requiredFields" "field_missing metadata (requiredFields ! i)"
       "\<forall>j<i. \<not> field_missing metadata (requiredFields ! j)"
    and l: "loadMetadata e filePath (Parsed metadata) =
             (None, [Warn_missing_field filePath (requiredFields ! i)])"
    by blast
  have s: "filter (warns_about filePath)
              (stderr (main e cr (before @ (filePath, Parsed metadata) # after) dir)) =
              [Warn_missing_field filePath (requiredFields ! i)]"
    if "join_error cr = None" "fst (group_apps e before []) = Inr cats"
       "filePath \<notin> fst ` set (before @ after)"
    using reached_descriptor_warnings[OF that l, of dir] by simp
  from l have n: "fst (loadMetadata e filePath (Parsed metadata)) = None" by simp
  have v: "valid_descriptors e (before @ (filePath, Parsed metadata) # after) =
           valid_descriptors e (before @ after)"
    by (simp add: valid_descriptors_append valid_descriptors_Cons n del: loadMetadata.simps)
  have g: "fst (group_apps e (before @ (filePath, Parsed metadata) # after) []) =
           fst (group_apps e (before @ after) [])"
    by (simp only: group_apps_push_all v)
  have w: "written (main e cr (before @ (filePath, Parsed metadata) # after) dir) =
           written (main e cr (before @ after) dir)"
    by (simp only: main_written v)
  have ex: "\<exists>i<length requiredFields.
           field_missing metadata (requiredFields ! i) \<and>
           (\<forall>j<i. \<not> field_missing metadata (requiredFields ! j)) \<and>
           loadMetadata e filePath (Parsed metadata) =
             (None, [Warn_missing_field filePath (requiredFields ! i)]) \<and>
           (join_error cr = None \<and> fst (group_apps e before []) = Inr cats \<and>
            filePath \<notin> fst ` set (before @ after) \<longrightarrow>
            filter (warns_about filePath)
              (stderr (main e cr (before @ (filePath, Parsed metadata) # after) dir)) =
              [Warn_missing_field filePath (requiredFields ! i)])"
  proof (intro exI conjI impI)
    show "i < length requiredFields" by (rule i(1))
    show "field_missing metadata (requiredFields ! i)" by (rule i(2))
    show "\<forall>j<i. \<not> field_missing metadata (requiredFields ! j)" by (rule i(3))
    show "loadMetadata e filePath (Parsed metadata) =
             (None, [Warn_missing_field filePath (requiredFields ! i)])" by (rule l)
    assume "join_error cr = None \<and> fst (group_apps e before []) = Inr cats \<and>
            filePath \<notin> fst ` set (before @ after)"
    then show "filter (warns_about filePath)
              (stderr (main e cr (before @ (filePath, Parsed metadata) # after) dir)) =
              [Warn_missing_field filePath (requiredFields ! i)]"
      by (elim conjE) (rule s)
  qed
  show ?thesis
    by (rule conjI[OF ex conjI[OF v conjI[OF g w]]])
qed

theorem invalid_descriptor_excluded_witness:
  "''commit'' \<in> set requiredFields \<and>
   field_missing incomplete_descriptor ''commit'' \<and>
   join_error (Categories_failed ''ENOENT'') = None \<and>
   fst (group_apps node_env [(''repositories/o1/r1/a/metadata.json'', Parsed foo_descriptor)] []) =
     Inr [(''Tools'', [foo_descriptor @ [(''filePath'', JStr ''repositories/o1/r1/a'')]])] \<and>
   ''repositories/o3/r3/c/metadata.json'' \<notin>
     fst ` set ([(''repositories/o1/r1/a/metadata.json'', Parsed foo_descriptor)] @
                [(''repositories/o2/r2/b/metadata.json'', Parsed bar_descriptor)]) \<and>
   loadMetadata node_env ''repositories/o3/r3/c/metadata.json'' (Parsed incomplete_descriptor) =
     (None, [Warn_missing_field ''repositories/o3/r3/c/metadata.json'' ''category'']) \<and>
   filter (warns_about ''repositories/o3/r3/c/metadata.json'')
     (stderr (main node_env (Categories_failed ''ENOENT'') incomplete_files [])) =
     [Warn_missing_field ''repositories/o3/r3/c/metadata.json'' ''category''] \<and>
   written (main node_env (Categories_failed ''ENOENT'') incomplete_files []) =
     written (main node_env (Categories_failed ''ENOENT'') scenario_files [])"
proof -
  let ?fp = "''repositories/o3/r3/c/metadata.json''"
  let ?before = "[(''repositories/o1/r1/a/metadata.json'', Parsed foo_descriptor)]"
  let ?after = "[(''repositories/o2/r2/b/metadata.json'', Parsed bar_descriptor)]"
  let ?cats = "[(''Tools'', [foo_descriptor @ [(''filePath'', JStr ''repositories/o1/r1/a'')]])]"
  have h1: "''commit'' \<in> set requiredFields" by (simp add: requiredFields_def)
  have h2: "field_missing incomplete_descriptor ''commit''"
    by (simp add: field_missing_def incomplete_descriptor_def get_prop_def has_prop_def)
  have h3: "join_error (Categories_failed ''ENOENT'') = None" by simp
  have h4: "fst (group_apps node_env ?before []) = Inr ?cats" by (rule foo_grouped)
  have h5: "?fp \<notin> fst ` set (?before @ ?after)" by simp
  note t = invalid_descriptor_excluded[OF h1 h2, where e = node_env and filePath = ?fp
      and cr = "Categories_failed ''ENOENT''" and before = ?before and cats = ?cats
      and after = ?after and dir = "[]"]
  from t[THEN conjunct1] obtain i where
    li: "loadMetadata node_env ?fp (Parsed incomplete_descriptor) =
           (None, [Warn_missing_field ?fp (requiredFields ! i)])"
    and imp: "join_error (Categories_failed ''ENOENT'') = None \<and>
       fst (group_apps node_env ?before []) = Inr ?cats \<and> ?fp \<notin> fst ` set (?before @ ?after) \<longrightarrow>
       filter (warns_about ?fp)
         (stderr (main node_env (Categories_failed ''ENOENT'')
            (?before @ (?fp, Parsed incomplete_descriptor) # ?after) [])) =
       [Warn_missing_field ?fp (requiredFields ! i)]"
    by (elim exE conjE)
  have ev: "loadMetadata node_env ?fp (Parsed incomplete_descriptor) =
     (None, [Warn_missing_field ?fp ''category''])"
    by (rule incomplete_first_missing)
  from li have fi: "requiredFields ! i = ''category''"
    unfolding ev by simp
  from imp h3 h4 h5 have f: "filter (warns_about ?fp)
         (stderr (main node_env (Categories_failed ''ENOENT'') incomplete_files [])) =
       [Warn_missing_field ?fp ''category'']"
    unfolding fi incomplete_files_split[symmetric] by (elim impE) (intro conjI)
  have w: "written (main node_env (Categories_failed ''ENOENT'') incomplete_files []) =
     written (main node_env (Categories_failed ''ENOENT'') scenario_files [])"
    using t[THEN conjunct2, THEN conjunct2, THEN conjunct2]
    unfolding incomplete_files_split[symmetric] .
  show ?thesis
    by (rule conjI[OF h1 conjI[OF h2 conjI[OF h3 conjI[OF h4 conjI[OF h5 conjI[OF ev conjI[OF f w]]]]]]])
qed

subsection \<open>C7: an allow-list that is not an array\<close>

text \<open>
  Claim C7. The descriptors that a run groups and writes are to be the same whatever the
  allow-list holds and whether it loads or not. The loader catches a file that cannot
  be read or parsed, but a file that parses to something other than an array passes
  through it unchanged, and line 73 then calls \<^verbatim>\<open>join\<close> on that value outside every
  \<^verbatim>\<open>try\<close>. When \<^verbatim>\<open>categories.json\<close> holds an object, a number, a string or a boolean,
  the loader returns the value with no warning and the run, for any descriptor files,
  ends with \<^verbatim>\<open>TypeError: validCategories.join is not a function\<close> as its only line
  on standard error, having written nothing and left the directory as it was. The run
  also fails, with nothing written, when the file holds \<^verbatim>\<open>null\<close> or an array with an
  entry that has no conversion to a string. On the two descriptor files of
  \<open>scenario_files\<close> the run with such an allow-list fails and writes nothing, where
  the run with an allow-list that failed to load completes and writes the manifest of
  the category and both indices.
\<close>

theorem non_array_allow_list_aborts:
  "loadValidCategories Categories_other = (Other_value, []) \<and>
   failure (main e Categories_other metadataFiles dir) =
     Some (TypeError ''validCategories.join is not a function'') \<and>
   stderr (main e Categories_other metadataFiles dir) =
     [Script_failed (TypeError ''validCategories.join is not a function'')] \<and>
   written (main e Categories_other metadataFiles dir) = [] \<and>
   files (main e Categories_other metadataFiles dir) = dir \<and>
   failure (main e Categories_null metadataFiles dir) \<noteq> None \<and>
   written (main e Categories_null metadataFiles dir) = [] \<and>
   failure (main e Categories_unprintable metadataFiles dir) \<noteq> None \<and>
   written (main e Categories_unprintable metadataFiles dir) = [] \<and>
   failure (main node_env Categories_other scenario_files []) \<noteq> None \<and>
   written (main node_env Categories_other scenario_files []) = [] \<and>
   failure (main node_env (Categories_failed ''ENOENT'') scenario_files []) = None \<and>
   map fst (written (main node_env (Categories_failed ''ENOENT'') scenario_files [])) =
     [''category-tools.json'', ''categories.json'', ''releases.json'']"
proof -
  have o: "main e Categories_other metadataFiles dir =
      \<lparr>files = dir,
       stderr = [Script_failed (TypeError ''validCategories.join is not a function'')],
       written = [],
       failure = Some (TypeError ''validCategories.join is not a function'')\<rparr>"
    for e metadataFiles dir
    using main_join_error[of Categories_other
        "TypeError ''validCategories.join is not a function''" e metadataFiles dir]
    by simp
  have n: "failure (main e Categories_null metadataFiles dir) \<noteq> None"
    "written (main e Categories_null metadataFiles dir) = []"
    "failure (main e Categories_unprintable metadataFiles dir) \<noteq> None"
    "written (main e Categories_unprintable metadataFiles dir) = []"
    by (simp_all add: main_failure main_written)
  have f: "failure (main node_env (Categories_failed ''ENOENT'') scenario_files []) = None"
    by (simp add: main_failure scenario_groups)
  have w: "map fst (written (main node_env (Categories_failed ''ENOENT'') scenario_files [])) =
     [''category-tools.json'', ''categories.json'', ''releases.json'']"
    by (simp add: scenario_written_failed_load scenario_written)
  show ?thesis
    using n f w by (simp add: o)
qed

subsection \<open>C8: a second run on unchanged input\<close>


subsection \<open>C10: what reconciliation leaves alone\<close>

text \<open>
  Claim C10. A file that was in the releases directory before the run and is not there
  after it has a name that starts with \<^verbatim>\<open>category-\<close> and ends with \<^verbatim>\<open>.json\<close>. The
  names \<^verbatim>\<open>categories.json\<close> and \<^verbatim>\<open>releases.json\<close> do not match that pattern. When
  no discovered descriptor is valid the run writes nothing, and \<^verbatim>\<open>categories.json\<close>
  and \<^verbatim>\<open>releases.json\<close> are after the run exactly what they were before it.
\<close>

theorem only_release_files_removed:
  "(map_of dir file \<noteq> None \<and> map_of (files (main e cr metadataFiles dir)) file = None \<longrightarrow>
      startsWith file ''category-'' \<and> endsWith file ''.json'') \<and>
   \<not> is_release_file ''categories.json'' \<and> \<not> is_release_file ''releases.json'' \<and>
   (valid_descriptors e metadataFiles = [] \<longrightarrow>
      written (main e cr metadataFiles dir) = [] \<and>
      map_of (files (main e cr metadataFiles dir)) ''categories.json'' =
        map_of dir ''categories.json'' \<and>
      map_of (files (main e cr metadataFiles dir)) ''releases.json'' =
        map_of dir ''releases.json'')"
proof -
  have a: "map_of dir file \<noteq> None \<and> map_of (files (main e cr metadataFiles dir)) file = None \<longrightarrow>
      startsWith file ''category-'' \<and> endsWith file ''.json''"
    by (auto simp: main_files is_release_file_def map_add_def
        split: sum.splits option.splits if_splits)
  have b: "valid_descriptors e metadataFiles = [] \<longrightarrow>
      written (main e cr metadataFiles dir) = [] \<and>
      map_of (files (main e cr metadataFiles dir)) ''categories.json'' =
        map_of dir ''categories.json'' \<and>
      map_of (files (main e cr metadataFiles dir)) ''releases.json'' =
        map_of dir ''releases.json''"
    by (simp add: main_files main_written synth_written_Nil not_release_file_indexes)
  from a b not_release_file_indexes show ?thesis by blast
qed

theorem only_release_files_removed_witness:
  "valid_descriptors node_env broken_files = [] \<and>
   map_of stale_directory ''categories.json'' \<noteq> None \<and>
   map_of (files (main node_env (Categories_parsed []) broken_files stale_directory))
     ''categories.json'' = map_of stale_directory ''categories.json'' \<and>
   map_of (files (main node_env (Categories_parsed []) broken_files stale_directory))
     ''releases.json'' = map_of stale_directory ''releases.json'' \<and>
   map_of stale_directory ''category-tools.json'' \<noteq> None \<and>
   map_of (files (main node_env (Categories_parsed []) broken_files stale_directory))
     ''category-tools.json'' = None \<and>
   startsWith ''category-tools.json'' ''category-'' \<and>
   endsWith ''category-tools.json'' ''.json''"
  using only_release_files_removed[of stale_directory "''category-tools.json''" node_env
      "Categories_parsed []" broken_files]
  by (simp add: broken_files_def valid_failed main_files synth_written_Nil
      synth_release_files_def object_entries_def wrote_def is_release_file_def startsWith_def
      endsWith_def node_env_def stale_directory_def)

subsection \<open>C1: manifests of categories that are gone\<close>

text \<open>
  Claim C1, as stated, fails: a run that discovers no descriptor file returns at line 82,
  before the reconciliation step, and leaves the directory as it was. Here the
  directory holds the manifest of the category \<^verbatim>\<open>Tools\<close> from an earlier run, no
  descriptor is discovered, the run completes, and the manifest is still there.
\<close>

theorem stale_manifest_kept_counterexample:
  "valid_descriptors node_env [] = [] \<and>
   failure (main node_env (Categories_parsed []) [] stale_directory) = None \<and>
   map_of stale_directory (release_file_name node_env ''Tools'') \<noteq> None \<and>
   map_of (files (main node_env (Categories_parsed []) [] stale_directory))
     (release_file_name node_env ''Tools'') \<noteq> None"
  by (simp add: main_def valid_descriptors_Nil release_file_name_Tools stale_directory_def)

text \<open>
  Claim C1, amended. Take a run that discovers at least one descriptor file and
  completes. Let a category be such that no valid descriptor of the run has a category
  with the same manifest file name (so the category itself has no valid descriptor), and
  let the unlink of that file not fail. Then after the run the manifest file of the
  category is not in the releases directory. Two categories can share a file name, as
  \<^verbatim>\<open>Tools\<close> and \<^verbatim>\<open>tools\<close> do: then the file of the one is rewritten for the other
  and stays (\<open>same_file_name_keeps_manifest\<close>).
\<close>

theorem stale_manifest_removed:
  assumes "metadataFiles \<noteq> []"
    and "failure (main e cr metadataFiles dir) = None"
    and "\<forall>m\<in>set (valid_descriptors e metadataFiles).
           release_file_name e (category_of m) \<noteq> release_file_name e category"
    and "\<not> unlink_fails e (release_file_name e category)"
  shows "map_of (files (main e cr metadataFiles dir)) (release_file_name e category) = None"
proof -
  from assms(2) have j: "join_error cr = None"
    by (simp add: run_completes_iff)
  from assms(2) obtain cats where p: "push_all (valid_descriptors e metadataFiles) [] = Inr cats"
    by (auto simp: main_failure j split: sum.splits)
  have k: "fst ` set cats = category_of ` set (valid_descriptors e metadataFiles)"
    using push_all_keys[OF p] by simp
  have "release_file_name e category \<notin> release_file_name e ` fst ` set cats"
    unfolding k using assms(3) by auto
  then have n: "release_file_name e category \<notin> set (synth_release_files e cats)"
    using synth_release_files_subset[of e cats] by blast
  show ?thesis
    using assms(1) assms(4) n by (simp add: main_files j p is_release_file_name)
qed

theorem stale_manifest_removed_witness:
  "broken_files \<noteq> [] \<and>
   failure (main node_env (Categories_parsed []) broken_files stale_directory) = None \<and>
   valid_descriptors node_env broken_files = [] \<and>
   \<not> unlink_fails node_env (release_file_name node_env ''Tools'') \<and>
   map_of stale_directory (release_file_name node_env ''Tools'') \<noteq> None \<and>
   map_of (files (main node_env (Categories_parsed []) broken_files stale_directory))
     (release_file_name node_env ''Tools'') = None"
  using stale_manifest_removed[of broken_files node_env "Categories_parsed []" stale_directory
      "''Tools''"]
  by (simp add: broken_files_def main_failure valid_failed release_file_name_Tools
      stale_directory_def)

subsection \<open>C2: the order of the entries\<close>

text \<open>
  Claim C2, as stated, fails: the script sorts with \<^verbatim>\<open>localeCompare\<close>, the collation
  of the runtime, and not by character code. With the default collation the name
  \<^verbatim>\<open>a\<close> comes before the name \<^verbatim>\<open>B\<close>, while by character code \<^verbatim>\<open>B\<close> (66) is
  below \<^verbatim>\<open>a\<close> (97). For two valid descriptors of the category \<^verbatim>\<open>Tools\<close> with these
  names both the category manifest and the releases index list \<^verbatim>\<open>a\<close> first.
\<close>

theorem codepoint_order_counterexample:
  "(''category-tools.json'',
     CategoryFile (ReleaseData ''Tools'' 2
       [[(''name'', JStr ''a''), (''description'', JStr ''d''), (''version'', JStr ''1.0''),
         (''slug'', JStr ''o1/r1/a'')],
        [(''name'', JStr ''B''), (''description'', JStr ''d''), (''version'', JStr ''2.0''),
         (''slug'', JStr ''o2/r2/B'')]]))
     \<in> set (written (main node_env (Categories_parsed []) case_files [])) \<and>
   \<not> codepoint_sorted
       [[(''name'', JStr ''a''), (''description'', JStr ''d''), (''version'', JStr ''1.0''),
         (''slug'', JStr ''o1/r1/a'')],
        [(''name'', JStr ''B''), (''description'', JStr ''d''), (''version'', JStr ''2.0''),
         (''slug'', JStr ''o2/r2/B'')]] \<and>
   (''releases.json'',
     ReleasesFile (ReleasesData 2
       [[(''name'', JStr ''a''), (''version'', JStr ''1.0''), (''slug'', JStr ''o1/r1/a/a'')],
        [(''name'', JStr ''B''), (''version'', JStr ''2.0''), (''slug'', JStr ''o2/r2/b/B'')]]))
     \<in> set (written (main node_env (Categories_parsed []) case_files [])) \<and>
   \<not> codepoint_sorted
       [[(''name'', JStr ''a''), (''version'', JStr ''1.0''), (''slug'', JStr ''o1/r1/a/a'')],
        [(''name'', JStr ''B''), (''version'', JStr ''2.0''), (''slug'', JStr ''o2/r2/b/B'')]]"
  by (simp add: case_written codepoint_sorted_def name_of_def get_prop_def)

text \<open>
  Claim C2, amended. In every category manifest and every releases index that a run
  writes, the entries are non-decreasing by \<^verbatim>\<open>name\<close> in the order of the comparator
  the script sorts with, \<^verbatim>\<open>localeCompare\<close>: for entries \<open>a\<close> before \<open>b\<close>,
  \<^verbatim>\<open>a.name.localeCompare(b.name)\<close> is at most 0. This holds for every set of descriptors,
  for a comparator that is total and transitive, as a collation is.
\<close>

theorem entries_sorted_by_localeCompare:
  assumes "consistent (localeCompare e)"
    and "(name, c) \<in> set (written (main e cr metadataFiles dir))"
  shows "(\<forall>d. c = CategoryFile d \<longrightarrow> names_sorted e (rd_apps d)) \<and>
         (\<forall>d. c = ReleasesFile d \<longrightarrow> names_sorted e (rl_apps d))"
proof -
  from in_main_written[OF assms(2)] obtain cats
    where w: "(name, c) \<in> set (synth_written e cats)" by blast
  from in_synth_written[OF w] show ?thesis
  proof (elim disjE)
    assume "\<exists>entry\<in>set cats. (name, c) = manifest_of e entry"
    then show ?thesis
      using assms(1)
      by (auto simp: manifest_of_def names_sorted_map_clean names_sorted_sort_by)
  next
    assume "\<exists>d. c = CategoriesFile d"
    then show ?thesis by auto
  next
    assume "name = ''releases.json'' \<and> c = ReleasesFile (releases_index e (sort_groups e cats))"
    then show ?thesis
      using assms(1) by (simp add: releases_index_def Let_def names_sorted_sort_by)
  qed
qed

theorem entries_sorted_by_localeCompare_witness:
  "consistent (localeCompare node_env) \<and>
   (''category-tools.json'',
     CategoryFile (ReleaseData ''Tools'' 2
       [[(''name'', JStr ''a''), (''description'', JStr ''d''), (''version'', JStr ''1.0''),
         (''slug'', JStr ''o1/r1/a'')],
        [(''name'', JStr ''B''), (''description'', JStr ''d''), (''version'', JStr ''2.0''),
         (''slug'', JStr ''o2/r2/B'')]]))
     \<in> set (written (main node_env (Categories_parsed []) case_files [])) \<and>
   names_sorted node_env
       [[(''name'', JStr ''a''), (''description'', JStr ''d''), (''version'', JStr ''1.0''),
         (''slug'', JStr ''o1/r1/a'')],
        [(''name'', JStr ''B''), (''description'', JStr ''d''), (''version'', JStr ''2.0''),
         (''slug'', JStr ''o2/r2/B'')]]"
  using entries_sorted_by_localeCompare[OF consistent_default,
      of "''category-tools.json''"
         "CategoryFile (ReleaseData ''Tools'' 2
       [[(''name'', JStr ''a''), (''description'', JStr ''d''), (''version'', JStr ''1.0''),
         (''slug'', JStr ''o1/r1/a'')],
        [(''name'', JStr ''B''), (''description'', JStr ''d''), (''version'', JStr ''2.0''),
         (''slug'', JStr ''o2/r2/B'')]])"
         "Categories_parsed []" case_files "[]"]
  by (simp add: case_written consistent_default)

subsection \<open>C5: the slug of a releases index entry\<close>

text \<open>
  Claim C5. The entries of a releases index that a run writes are, one for one, the
  entries of the valid descriptors of the run, and the entry of a descriptor has its
  \<^verbatim>\<open>name\<close>, its \<^verbatim>\<open>version\<close> and the slug made of owner, \<^verbatim>\<open>/\<close>, repo, path and
  name in this order, in which every maximal run of slashes is collapsed to one slash
  (\<open>collapse_slashes\<close>, the wording of the specification; the script's regular
  expression is \<open>replace_slash_runs\<close>). Owner \<^verbatim>\<open>o2\<close>, repo \<^verbatim>\<open>r2\<close>, path
  \<^verbatim>\<open>/b/\<close> and name \<^verbatim>\<open>Bar\<close> give \<^verbatim>\<open>o2/r2/b/Bar\<close>.
\<close>

theorem releases_slug_collapsed:
  "((name, ReleasesFile d) \<in> set (written (main e cr metadataFiles dir)) \<longrightarrow>
      mset (rl_apps d) =
        image_mset (\<lambda>m. [(''name'', get_prop m ''name''), (''version'', get_prop m ''version''),
            (''slug'', JStr (collapse_slashes
               (to_string (get_prop m ''owner'') @ ''/'' @ to_string (get_prop m ''repo'') @
                to_string (get_prop m ''path'') @ to_string (get_prop m ''name''))))])
          (mset (valid_descriptors e metadataFiles))) \<and>
   release_entry bar_descriptor =
     [(''name'', JStr ''Bar''), (''version'', JStr ''2.0''), (''slug'', JStr ''o2/r2/b/Bar'')]"
proof -
  have f: "release_entry =
      (\<lambda>m. [(''name'', get_prop m ''name''), (''version'', get_prop m ''version''),
            (''slug'', JStr (collapse_slashes
               (to_string (get_prop m ''owner'') @ ''/'' @ to_string (get_prop m ''repo'') @
                to_string (get_prop m ''path'') @ to_string (get_prop m ''name''))))])"
    by (rule ext) (rule release_entry_collapse)
  have a: "(name, ReleasesFile d) \<in> set (written (main e cr metadataFiles dir)) \<longrightarrow>
      mset (rl_apps d) = image_mset release_entry (mset (valid_descriptors e metadataFiles))"
    using written_releases_index[of name d e cr metadataFiles dir] by blast
  show ?thesis
    using a release_entry_bar unfolding f by blast
qed

theorem releases_slug_collapsed_witness:
  "(''releases.json'',
     ReleasesFile (ReleasesData 2
       [[(''name'', JStr ''Bar''), (''version'', JStr ''2.0''), (''slug'', JStr ''o2/r2/b/Bar'')],
        [(''name'', JStr ''Foo''), (''version'', JStr ''1.0''),
         (''slug'', JStr ''o1/r1/a/Foo'')]]))
     \<in> set (written (main node_env (Categories_parsed []) scenario_files [])) \<and>
   mset [[(''name'', JStr ''Bar''), (''version'', JStr ''2.0''), (''slug'', JStr ''o2/r2/b/Bar'')],
        [(''name'', JStr ''Foo''), (''version'', JStr ''1.0''),
         (''slug'', JStr ''o1/r1/a/Foo'')]] =
     image_mset (\<lambda>m. [(''name'', get_prop m ''name''), (''version'', get_prop m ''version''),
            (''slug'', JStr (collapse_slashes
               (to_string (get_prop m ''owner'') @ ''/'' @ to_string (get_prop m ''repo'') @
                to_string (get_prop m ''path'') @ to_string (get_prop m ''name''))))])
          (mset (valid_descriptors node_env scenario_files))"
  using releases_slug_collapsed[of "''releases.json''"
      "ReleasesData 2
       [[(''name'', JStr ''Bar''), (''version'', JStr ''2.0''), (''slug'', JStr ''o2/r2/b/Bar'')],
        [(''name'', JStr ''Foo''), (''version'', JStr ''1.0''),
         (''slug'', JStr ''o1/r1/a/Foo'')]]"
      node_env "Categories_parsed []" scenario_files "[]"]
  by (simp add: scenario_written)

subsection \<open>C6: the entry of a descriptor in its category manifest\<close>

text \<open>
  Claim C6. The entry of a valid descriptor in the category manifest is the descriptor
  as read from its file without the properties \<^verbatim>\<open>commit\<close>, \<^verbatim>\<open>owner\<close>, \<^verbatim>\<open>repo\<close>,
  \<^verbatim>\<open>path\<close>, \<^verbatim>\<open>filePath\<close> (the location that the loader attaches, \<^verbatim>\<open>location\<close> in
  the specification), \<^verbatim>\<open>category\<close> and \<^verbatim>\<open>files\<close>, with the property \<^verbatim>\<open>slug\<close> set
  to owner, \<^verbatim>\<open>/\<close>, repo, \<^verbatim>\<open>/\<close>, name. The entries of a manifest that a run writes
  are, one for one, these entries of the valid descriptors of the manifest's category,
  and \<^verbatim>\<open>count\<close> is their number. Owner \<^verbatim>\<open>acme\<close>, repo \<^verbatim>\<open>widgets\<close> and name
  \<^verbatim>\<open>gizmo\<close> give the slug \<^verbatim>\<open>acme/widgets/gizmo\<close>.
\<close>

theorem manifest_entry_clean:
  "(loadMetadata e filePath (Parsed descriptor) = (Some metadata, w) \<and>
    get_prop descriptor ''owner'' = JStr owner \<and> get_prop descriptor ''repo'' = JStr repo \<and>
    get_prop descriptor ''name'' = JStr name \<longrightarrow>
      clean_app metadata =
        set_prop ''slug'' (JStr (owner @ ''/'' @ repo @ ''/'' @ name))
          (filter (\<lambda>(k, v). k \<notin> {''commit'', ''owner'', ''repo'', ''path'', ''filePath'',
                               ''category'', ''files''}) descriptor)) \<and>
   ((fname, CategoryFile d) \<in> set (written (main e cr metadataFiles dir)) \<longrightarrow>
      mset (rd_apps d) =
        image_mset clean_app
          (filter_mset (\<lambda>m. category_of m = rd_category d)
             (mset (valid_descriptors e metadataFiles))) \<and>
      rd_count d = length (rd_apps d)) \<and>
   (get_prop app ''owner'' = JStr ''acme'' \<and> get_prop app ''repo'' = JStr ''widgets'' \<and>
    get_prop app ''name'' = JStr ''gizmo'' \<longrightarrow>
      get_prop (clean_app app) ''slug'' = JStr ''acme/widgets/gizmo'')"
proof -
  have a: "loadMetadata e filePath (Parsed descriptor) = (Some metadata, w) \<and>
    get_prop descriptor ''owner'' = JStr owner \<and> get_prop descriptor ''repo'' = JStr repo \<and>
    get_prop descriptor ''name'' = JStr name \<longrightarrow>
      clean_app metadata =
        set_prop ''slug'' (JStr (owner @ ''/'' @ repo @ ''/'' @ name))
          (filter (\<lambda>(k, v). k \<notin> {''commit'', ''owner'', ''repo'', ''path'', ''filePath'',
                               ''category'', ''files''}) descriptor)"
  proof (intro impI, elim conjE)
    assume l: "loadMetadata e filePath (Parsed descriptor) = (Some metadata, w)"
      and o: "get_prop descriptor ''owner'' = JStr owner"
      and r: "get_prop descriptor ''repo'' = JStr repo"
      and n: "get_prop descriptor ''name'' = JStr name"
    have m: "metadata = set_prop ''filePath''
           (JStr (replace_backslashes (path_dirname e filePath))) descriptor"
      by (rule loadMetadata_Some[OF l, THEN conjunct1])
    show "clean_app metadata =
        set_prop ''slug'' (JStr (owner @ ''/'' @ repo @ ''/'' @ name))
          (filter (\<lambda>(k, v). k \<notin> {''commit'', ''owner'', ''repo'', ''path'', ''filePath'',
                               ''category'', ''files''}) descriptor)"
      unfolding m clean_app_loaded o r n by simp
  qed
  have b: "(fname, CategoryFile d) \<in> set (written (main e cr metadataFiles dir)) \<longrightarrow>
      mset (rd_apps d) =
        image_mset clean_app
          (filter_mset (\<lambda>m. category_of m = rd_category d)
             (mset (valid_descriptors e metadataFiles))) \<and>
      rd_count d = length (rd_apps d)"
    using written_manifest[of fname d e cr metadataFiles dir] by blast
  have c: "get_prop app ''owner'' = JStr ''acme'' \<and> get_prop app ''repo'' = JStr ''widgets'' \<and>
    get_prop app ''name'' = JStr ''gizmo'' \<longrightarrow>
      get_prop (clean_app app) ''slug'' = JStr ''acme/widgets/gizmo''"
    by (simp add: clean_app_slug)
  from a b c show ?thesis by blast
qed


theorem manifest_entry_clean_witness:
  "loadMetadata node_env ''repositories/o1/r1/a/metadata.json'' (Parsed lower_descriptor) =
     (Some (lower_descriptor @ [(''filePath'', JStr ''repositories/o1/r1/a'')]), []) \<and>
   get_prop lower_descriptor ''owner'' = JStr ''o1'' \<and>
   get_prop lower_descriptor ''repo'' = JStr ''r1'' \<and>
   get_prop lower_descriptor ''name'' = JStr ''a'' \<and>
   clean_app (lower_descriptor @ [(''filePath'', JStr ''repositories/o1/r1/a'')]) =
     [(''name'', JStr ''a''), (''description'', JStr ''d''), (''version'', JStr ''1.0''),
      (''slug'', JStr ''o1/r1/a'')] \<and>
   (''category-tools.json'',
     CategoryFile (ReleaseData ''Tools'' 2
       [[(''name'', JStr ''a''), (''description'', JStr ''d''), (''version'', JStr ''1.0''),
         (''slug'', JStr ''o1/r1/a'')],
        [(''name'', JStr ''B''), (''description'', JStr ''d''), (''version'', JStr ''2.0''),
         (''slug'', JStr ''o2/r2/B'')]]))
     \<in> set (written (main node_env (Categories_parsed []) case_files [])) \<and>
   mset [[(''name'', JStr ''a''), (''description'', JStr ''d''), (''version'', JStr ''1.0''),
         (''slug'', JStr ''o1/r1/a'')],
        [(''name'', JStr ''B''), (''description'', JStr ''d''), (''version'', JStr ''2.0''),
         (''slug'', JStr ''o2/r2/B'')]] =
     image_mset clean_app
       (filter_mset (\<lambda>m. category_of m = ''Tools'') (mset (valid_descriptors node_env case_files))) \<and>
   get_prop (clean_app [(''owner'', JStr ''acme''), (''repo'', JStr ''widgets''),
                        (''name'', JStr ''gizmo'')]) ''slug'' = JStr ''acme/widgets/gizmo''"
proof -
  have l: "loadMetadata node_env ''repositories/o1/r1/a/metadata.json'' (Parsed lower_descriptor) =
     (Some (lower_descriptor @ [(''filePath'', JStr ''repositories/o1/r1/a'')]), [])"
    by (simp add: requiredFields_def field_missing_def has_prop_def get_prop_def
        lower_descriptor_def node_env_def posix_dirname_def replace_backslashes_def)
  have g: "get_prop lower_descriptor ''owner'' = JStr ''o1''"
    "get_prop lower_descriptor ''repo'' = JStr ''r1''"
    "get_prop lower_descriptor ''name'' = JStr ''a''"
    by (simp_all add: get_prop_def lower_descriptor_def)
  have m: "(''category-tools.json'',
     CategoryFile (ReleaseData ''Tools'' 2
       [[(''name'', JStr ''a''), (''description'', JStr ''d''), (''version'', JStr ''1.0''),
         (''slug'', JStr ''o1/r1/a'')],
        [(''name'', JStr ''B''), (''description'', JStr ''d''), (''version'', JStr ''2.0''),
         (''slug'', JStr ''o2/r2/B'')]]))
     \<in> set (written (main node_env (Categories_parsed []) case_files []))"
    by (simp add: case_written)
  have a: "get_prop [(''owner'', JStr ''acme''), (''repo'', JStr ''widgets''),
                     (''name'', JStr ''gizmo'')] ''owner'' = JStr ''acme''"
    "get_prop [(''owner'', JStr ''acme''), (''repo'', JStr ''widgets''),
                     (''name'', JStr ''gizmo'')] ''repo'' = JStr ''widgets''"
    "get_prop [(''owner'', JStr ''acme''), (''repo'', JStr ''widgets''),
                     (''name'', JStr ''gizmo'')] ''name'' = JStr ''gizmo''"
    by (simp_all add: get_prop_def)
  have f: "set_prop ''slug'' (JStr (''o1'' @ ''/'' @ ''r1'' @ ''/'' @ ''a''))
          (filter (\<lambda>(k, v). k \<notin> {''commit'', ''owner'', ''repo'', ''path'', ''filePath'',
                               ''category'', ''files''}) lower_descriptor) =
     [(''name'', JStr ''a''), (''description'', JStr ''d''), (''version'', JStr ''1.0''),
      (''slug'', JStr ''o1/r1/a'')]"
    by (simp add: lower_descriptor_def)
  note t = manifest_entry_clean[where e = node_env
      and filePath = "''repositories/o1/r1/a/metadata.json''"
      and descriptor = lower_descriptor
      and metadata = "lower_descriptor @ [(''filePath'', JStr ''repositories/o1/r1/a'')]"
      and w = "[]" and owner = "''o1''" and repo = "''r1''" and name = "''a''"
      and fname = "''category-tools.json''"
      and d = "ReleaseData ''Tools'' 2
       [[(''name'', JStr ''a''), (''description'', JStr ''d''), (''version'', JStr ''1.0''),
         (''slug'', JStr ''o1/r1/a'')],
        [(''name'', JStr ''B''), (''description'', JStr ''d''), (''version'', JStr ''2.0''),
         (''slug'', JStr ''o2/r2/B'')]]"
      and cr = "Categories_parsed []" and metadataFiles = case_files and dir = "[]"
      and app = "[(''owner'', JStr ''acme''), (''repo'', JStr ''widgets''),
                        (''name'', JStr ''gizmo'')]"]
  from t l g m a f show ?thesis by simp
qed

subsection \<open>C4: every valid descriptor in one manifest and once in the releases index\<close>

text \<open>
  Claim C4 fails on the script for a category named like a property that a plain object
  inherits from \<^verbatim>\<open>Object.prototype\<close>. For the valid descriptor \<open>constructor_descriptor\<close>,
  of category \<^verbatim>\<open>constructor\<close>, line 95 reads the inherited, truthy
  \<^verbatim>\<open>categorizedApps["constructor"]\<close> and creates no group, line 99 calls its missing
  \<^verbatim>\<open>push\<close>, and the \<^verbatim>\<open>TypeError\<close> ends the run: nothing is written, the descriptor is
  in no category manifest and in no releases index, whatever the allow-list and the
  releases directory are.
\<close>

theorem constructor_category_aborts:
  "valid_descriptors e constructor_files \<noteq> [] \<and>
   map category_of (valid_descriptors e constructor_files) = [''constructor''] \<and>
   failure (main e (Categories_parsed categories) constructor_files dir) =
     Some (TypeError ''categorizedApps[category].push is not a function'') \<and>
   failure (main e (Categories_failed msg) constructor_files dir) =
     Some (TypeError ''categorizedApps[category].push is not a function'') \<and>
   failure (main e cr constructor_files dir) \<noteq> None \<and>
   written (main e cr constructor_files dir) = [] \<and>
   map_of (files (main e cr constructor_files dir)) = map_of dir"
proof -
  have p: "push_all (valid_descriptors e constructor_files) [] =
      Inl (TypeError ''categorizedApps[category].push is not a function'')"
    by (simp add: valid_constructor push_app_def Let_def get_prop_def
        constructor_descriptor_def object_prototype_keys_def)
  have c: "map category_of (valid_descriptors e constructor_files) = [''constructor'']"
    by (simp add: valid_constructor category_of_def get_prop_def constructor_descriptor_def)
  have f: "map_of (files (main e cr constructor_files dir)) = map_of dir"
    by (rule ext) (simp add: main_files p)
  have n: "valid_descriptors e constructor_files \<noteq> []"
    by (simp add: valid_constructor)
  have x: "failure (main e (Categories_parsed categories) constructor_files dir) =
     Some (TypeError ''categorizedApps[category].push is not a function'')"
    by (simp add: main_failure p)
  have y: "failure (main e (Categories_failed msg) constructor_files dir) =
     Some (TypeError ''categorizedApps[category].push is not a function'')"
    by (simp add: main_failure p)
  have z: "failure (main e cr constructor_files dir) \<noteq> None"
    by (simp add: main_failure p split: option.splits)
  have w: "written (main e cr constructor_files dir) = []"
    by (simp add: main_written p)
  from n c x y z w f show ?thesis by blast
qed

end
